theory Spec2Isabelle
  imports Main
begin

section \<open>Python strings and character classes\<close>

text \<open>
  A Python \<open>str\<close> is modelled as a HOL \<open>string\<close>; a \<open>char\<close> stands for the code
  point of the same number (0 to 255).  The predicates below are Python's
  \<open>str.isspace\<close> and \<open>str.isalnum\<close> on these code points; the class \<open>\w\<close> of the
  \<open>re\<close> module is \<open>isalnum\<close> or the underscore.
\<close>

definition isspace :: "char \<Rightarrow> bool" where
  "isspace c = (let n = (of_char c :: nat) in
     (9 \<le> n \<and> n \<le> 13) \<or> (28 \<le> n \<and> n \<le> 32) \<or> n = 133 \<or> n = 160)"

definition isalnum :: "char \<Rightarrow> bool" where
  "isalnum c = (let n = (of_char c :: nat) in
     (48 \<le> n \<and> n \<le> 57) \<or> (65 \<le> n \<and> n \<le> 90) \<or> (97 \<le> n \<and> n \<le> 122) \<or>
     n = 170 \<or> n = 178 \<or> n = 179 \<or> n = 181 \<or> n = 185 \<or> n = 186 \<or>
     (188 \<le> n \<and> n \<le> 190) \<or> (192 \<le> n \<and> n \<le> 214) \<or>
     (216 \<le> n \<and> n \<le> 246) \<or> (248 \<le> n \<and> n \<le> 255))"

definition word_char :: "char \<Rightarrow> bool" where
  "word_char c = (isalnum c \<or> c = CHR ''_'')"

text \<open>The explicit ASCII classes \<open>[A-Za-z_]\<close> and \<open>[A-Za-z0-9_]\<close>.\<close>

definition ascii_id_start :: "char \<Rightarrow> bool" where
  "ascii_id_start c = (let n = (of_char c :: nat) in
     (65 \<le> n \<and> n \<le> 90) \<or> (97 \<le> n \<and> n \<le> 122) \<or> c = CHR ''_'')"

definition ascii_id_char :: "char \<Rightarrow> bool" where
  "ascii_id_char c = (let n = (of_char c :: nat) in
     (65 \<le> n \<and> n \<le> 90) \<or> (97 \<le> n \<and> n \<le> 122) \<or> (48 \<le> n \<and> n \<le> 57) \<or>
     c = CHR ''_'')"

text \<open>\<open>s.strip()\<close>, \<open>s.rstrip(';')\<close>, \<open>s.startswith(p)\<close> and \<open>s.split('=', 1)\<close>.\<close>

definition lstrip :: "string \<Rightarrow> string" where
  "lstrip s = dropWhile isspace s"

definition rstrip :: "string \<Rightarrow> string" where
  "rstrip s = rev (dropWhile isspace (rev s))"

definition strip :: "string \<Rightarrow> string" where
  "strip s = rstrip (lstrip s)"

definition rstrip_chars :: "char set \<Rightarrow> string \<Rightarrow> string" where
  "rstrip_chars cs s = rev (dropWhile (\<lambda>c. c \<in> cs) (rev s))"

definition startswith :: "string \<Rightarrow> string \<Rightarrow> bool" where
  "startswith s p = (take (length p) s = p)"

definition split_first :: "char \<Rightarrow> string \<Rightarrow> string \<times> string" where
  "split_first c s = (takeWhile (\<lambda>x. x \<noteq> c) s, drop 1 (dropWhile (\<lambda>x. x \<noteq> c) s))"

text \<open>
  \<open>re.match(r'^\w+$', s)\<close>: one or more word characters; \<open>$\<close> also matches just
  before a final newline.
\<close>

definition match_word_only :: "string \<Rightarrow> bool" where
  "match_word_only s =
     ((s \<noteq> [] \<and> list_all word_char s) \<or>
      (s \<noteq> [] \<and> last s = CHR 0x0A \<and> butlast s \<noteq> [] \<and> list_all word_char (butlast s)))"

text \<open>\<open>re.match(r'^[A-Za-z_][A-Za-z0-9_]*$', t)\<close>, with the same reading of \<open>$\<close>.\<close>

definition match_identifier :: "string \<Rightarrow> bool" where
  "match_identifier t = (case t of
      [] \<Rightarrow> False
    | c # cs \<Rightarrow> ascii_id_start c \<and>
        (list_all ascii_id_char cs \<or>
         (cs \<noteq> [] \<and> last cs = CHR 0x0A \<and> list_all ascii_id_char (butlast cs))))"

text \<open>\<open>str(n)\<close> for a non-negative integer, as used by the f-strings.\<close>

definition digit_char :: "nat \<Rightarrow> char" where
  "digit_char d = char_of (48 + d)"

function str_nat :: "nat \<Rightarrow> string" where
  "str_nat n = (if n < 10 then [digit_char n] else str_nat (n div 10) @ [digit_char (n mod 10)])"
  by pat_completeness auto
termination
  by (relation "measure id") auto

declare str_nat.simps [simp del]

lemma digit_char_simps:
  "digit_char 0 = CHR ''0''" "digit_char 1 = CHR ''1''" "digit_char (Suc 0) = CHR ''1''"
  "digit_char 2 = CHR ''2''" "digit_char 3 = CHR ''3''" "digit_char 4 = CHR ''4''"
  "digit_char 5 = CHR ''5''" "digit_char 6 = CHR ''6''" "digit_char 7 = CHR ''7''"
  "digit_char 8 = CHR ''8''" "digit_char 9 = CHR ''9''"
  by code_simp+

lemma str_nat_small:
  "str_nat 0 = ''0''" "str_nat (Suc 0) = ''1''" "str_nat (Suc (Suc 0)) = ''2''"
  "str_nat (Suc (Suc (Suc 0))) = ''3''" "str_nat (Suc (Suc (Suc (Suc 0)))) = ''4''"
  "str_nat 1 = ''1''" "str_nat 2 = ''2''" "str_nat 3 = ''3''" "str_nat 4 = ''4''"
  "str_nat 5 = ''5''" "str_nat 6 = ''6''" "str_nat 7 = ''7''" "str_nat 8 = ''8''"
  "str_nat 9 = ''9''" "str_nat 10 = ''10''" "str_nat 11 = ''11''" "str_nat 12 = ''12''"
  "str_nat 13 = ''13''" "str_nat 14 = ''14''"
  by code_simp+

lemma digit_char_inj: "d < 10 \<Longrightarrow> e < 10 \<Longrightarrow> digit_char d = digit_char e \<Longrightarrow> d = e"
  by (simp add: digit_char_def)

lemma str_nat_nonempty: "str_nat n \<noteq> []"
  by (subst str_nat.simps) simp

lemma str_nat_inj: "str_nat n = str_nat m \<Longrightarrow> n = m"
proof (induction n arbitrary: m rule: str_nat.induct)
  case (1 n)
  show ?case
  proof (cases "n < 10")
    case True
    show ?thesis
    proof (cases "m < 10")
      case m: True
      from "1.prems" True m have "digit_char n = digit_char m"
        by (simp add: str_nat.simps)
      with True m show ?thesis by (rule digit_char_inj)
    next
      case m: False
      from "1.prems" True m have "[digit_char n] = str_nat (m div 10) @ [digit_char (m mod 10)]"
        by (simp add: str_nat.simps [of n] str_nat.simps [of m])
      then have "str_nat (m div 10) = []" by simp
      with str_nat_nonempty show ?thesis by blast
    qed
  next
    case False
    show ?thesis
    proof (cases "m < 10")
      case m: True
      from "1.prems" False m have "str_nat (n div 10) @ [digit_char (n mod 10)] = [digit_char m]"
        by (simp add: str_nat.simps [of n] str_nat.simps [of m])
      then have "str_nat (n div 10) = []" by simp
      with str_nat_nonempty show ?thesis by blast
    next
      case m: False
      from "1.prems" False m
      have eq: "str_nat (n div 10) @ [digit_char (n mod 10)] = str_nat (m div 10) @ [digit_char (m mod 10)]"
        by (simp add: str_nat.simps [of n] str_nat.simps [of m])
      then have a: "str_nat (n div 10) = str_nat (m div 10)"
        and b: "digit_char (n mod 10) = digit_char (m mod 10)" by simp_all
      from "1.IH" [OF False a] have "n div 10 = m div 10" .
      moreover from b have "n mod 10 = m mod 10"
        by (intro digit_char_inj) simp_all
      ultimately show ?thesis by (metis div_mult_mod_eq)
    qed
  qed
qed

section \<open>Data model\<close>

text \<open>
  The exceptions the modelled code can raise.  A computation that may raise returns
  \<open>py_error + 'a\<close>; one that may also fail to return wraps this in \<open>option\<close>,
  with \<open>None\<close> for a run that never returns.
\<close>

datatype py_error = IndexError | TypeError | RecursionError

text \<open>
  The dataclass \<open>Gate\<close>.  Its field \<open>ic_instance\<close> is a back pointer that the packer
  writes and nothing reads; the gates of an IC are held in the IC's own list.
\<close>

record gate =
  gate_type :: string
  inputs :: "string list"
  output_net :: string
  instance_name :: string

text \<open>The expression tree built by \<open>_rpn_to_ast\<close>: tuples tagged id, not, and, xor, or.\<close>

datatype binop = and_op | xor_op | or_op

datatype ast = IdN string | NotN ast | BinN binop ast ast

section \<open>Expression compiler\<close>

subsection \<open>Ternary rewriting\<close>

text \<open>
  \<open>find_top_ternary\<close>: the loop over the characters of \<open>s\<close>, with the position \<open>i\<close>,
  the parenthesis depth (never below 0) and the position of the first question mark at
  depth 0 (\<open>None\<close> for the source's \<open>-1\<close>).
\<close>

fun find_top_ternary_loop :: "string \<Rightarrow> nat \<Rightarrow> nat \<Rightarrow> nat option \<Rightarrow> (nat \<times> nat) option" where
  "find_top_ternary_loop [] i depth q_pos = None"
| "find_top_ternary_loop (c # cs) i depth q_pos =
     (if c = CHR ''('' then find_top_ternary_loop cs (i + 1) (depth + 1) q_pos
      else if c = CHR '')'' then
        find_top_ternary_loop cs (i + 1) (depth - (if depth > 0 then 1 else 0)) q_pos
      else if c = CHR ''?'' \<and> depth = 0 \<and> q_pos = None then
        find_top_ternary_loop cs (i + 1) depth (Some i)
      else if c = CHR '':'' \<and> depth = 0 \<and> q_pos \<noteq> None then
        (case q_pos of Some q \<Rightarrow> Some (q, i) | None \<Rightarrow> None)
      else find_top_ternary_loop cs (i + 1) depth q_pos)"

definition find_top_ternary :: "string \<Rightarrow> (nat \<times> nat) option" where
  "find_top_ternary s = find_top_ternary_loop s 0 0 None"

lemma find_top_ternary_loop_bounds:
  "find_top_ternary_loop s i depth q_pos = Some (q, k) \<Longrightarrow>
     (\<forall>p. q_pos = Some p \<longrightarrow> p < i) \<Longrightarrow>
     q < k \<and> i \<le> k \<and> k < i + length s \<and>
     (\<forall>p. q_pos = Some p \<longrightarrow> q = p) \<and> (q_pos = None \<longrightarrow> i \<le> q)"
proof (induction s arbitrary: i depth q_pos)
  case Nil
  then show ?case by simp
next
  case (Cons c cs)
  show ?case
  proof (cases "c = CHR '':'' \<and> depth = 0 \<and> q_pos \<noteq> None")
    case True
    with Cons.prems show ?thesis by auto
  next
    case False
    then obtain d' q' where
      step: "find_top_ternary_loop cs (i + 1) d' q' = Some (q, k)" and
      q': "q' = q_pos \<or> (q_pos = None \<and> q' = Some i)"
      using Cons.prems(1) by (auto split: if_splits)
    have "\<forall>p. q' = Some p \<longrightarrow> p < i + 1"
      using q' Cons.prems(2) by auto
    from Cons.IH [OF step this] q' show ?thesis by auto
  qed
qed

lemma find_top_ternary_bounds:
  "find_top_ternary s = Some (q, k) \<Longrightarrow> q < k \<and> k < length s"
  using find_top_ternary_loop_bounds [of s 0 0 None q k]
  by (simp add: find_top_ternary_def)

lemma length_strip_le: "length (strip s) \<le> length s"
proof -
  have "length (strip s) \<le> length (lstrip s)"
    unfolding strip_def rstrip_def
    by (metis length_dropWhile_le length_rev)
  also have "\<dots> \<le> length s"
    unfolding lstrip_def by (rule length_dropWhile_le)
  finally show ?thesis .
qed

lemma rewrite_parts_shorter:
  assumes "find_top_ternary s = Some (q, k)"
  shows "length (strip (take q s)) < length s"
    and "length (strip (take (k - (q + 1)) (drop (q + 1) s))) < length s"
    and "length (strip (drop (k + 1) s)) < length s"
proof -
  from assms have b: "q < k" "k < length s"
    using find_top_ternary_bounds [of s q k] by auto
  have "length (strip (take q s)) \<le> length (take q s)"
    by (rule length_strip_le)
  with b show "length (strip (take q s)) < length s" by simp
  have "length (strip (take (k - (q + 1)) (drop (q + 1) s)))
        \<le> length (take (k - (q + 1)) (drop (q + 1) s))"
    by (rule length_strip_le)
  with b show "length (strip (take (k - (q + 1)) (drop (q + 1) s))) < length s"
    by simp
  have "length (strip (drop (k + 1) s)) \<le> length (drop (k + 1) s)"
    by (rule length_strip_le)
  with b show "length (strip (drop (k + 1) s)) < length s" by simp
qed

text \<open>
  The inner function \<open>rewrite\<close> of \<open>_rewrite_ternary_to_bool\<close>: the condition is
  \<open>s[:q_idx]\<close>, the then-part \<open>s[q_idx+1:colon_idx]\<close>, the else-part \<open>s[colon_idx+1:]\<close>,
  each stripped and rewritten in turn.
\<close>

function rewrite :: "string \<Rightarrow> string" where
  "rewrite s = (case find_top_ternary s of
      None \<Rightarrow> s
    | Some (q_idx, colon_idx) \<Rightarrow>
        ''(('' @ rewrite (strip (take q_idx s)) @ '') & ('' @
          rewrite (strip (take (colon_idx - (q_idx + 1)) (drop (q_idx + 1) s))) @
          '')) | ((~('' @ rewrite (strip (take q_idx s)) @ '')) & ('' @
          rewrite (strip (drop (colon_idx + 1) s)) @ ''))'')"
  by pat_completeness auto
termination
proof (relation "measure length", goal_cases)
  case 1
  show ?case by simp
next
  case (2 s x2 q k)
  then show ?case using rewrite_parts_shorter [of s q k] by simp
next
  case (3 s x2 q k)
  then show ?case using rewrite_parts_shorter [of s q k] by simp
next
  case (4 s x2 q k)
  then show ?case using rewrite_parts_shorter [of s q k] by simp
next
  case (5 s x2 q k)
  then show ?case using rewrite_parts_shorter [of s q k] by simp
qed

declare rewrite.simps [simp del]

definition rewrite_ternary_to_bool :: "string \<Rightarrow> string" where
  "rewrite_ternary_to_bool expr =
     (let e = strip expr in if CHR ''?'' \<notin> set e then e else rewrite e)"

subsection \<open>Tokenizer\<close>

text \<open>
  \<open>_tokenize_boolean_expr\<close>, on the rest \<open>expr[i:]\<close> of the expression.  At a
  character that is neither white space, nor an operator or parenthesis, nor part of an
  identifier, the source appends the empty token and leaves \<open>i\<close> where it is: the
  loop runs on with the same rest, and never returns.
\<close>

partial_function (option) tokenize_loop :: "string \<Rightarrow> string list \<Rightarrow> string list option" where
  "tokenize_loop rest tokens = (case rest of
      [] \<Rightarrow> Some tokens
    | c # cs \<Rightarrow>
        if isspace c then tokenize_loop cs tokens
        else if c \<in> set ''()~&^|'' then tokenize_loop cs (tokens @ [[c]])
        else tokenize_loop (dropWhile word_char rest) (tokens @ [takeWhile word_char rest]))"

declare tokenize_loop.simps [code]

definition tokenize_boolean_expr :: "string \<Rightarrow> string list option" where
  "tokenize_boolean_expr expr = tokenize_loop expr []"

subsection \<open>Shunting yard\<close>

text \<open>
  The operator stack \<open>ops\<close> is a list whose head is the top (\<open>ops[-1]\<close>);
  \<open>output\<close> grows at its end.
\<close>

definition prec :: "string \<Rightarrow> nat option" where
  "prec t = (if t = ''~'' then Some 4 else if t = ''&'' then Some 3
             else if t = ''^'' then Some 2 else if t = ''|'' then Some 1 else None)"

definition right_assoc :: "string \<Rightarrow> bool" where
  "right_assoc t = (t = ''~'')"

fun pop_until_paren :: "string list \<Rightarrow> string list \<Rightarrow> string list \<times> string list" where
  "pop_until_paren out [] = (out, [])"
| "pop_until_paren out (tp # ops) =
     (if tp \<noteq> ''('' then pop_until_paren (out @ [tp]) ops else (out, tp # ops))"

fun pop_higher :: "string \<Rightarrow> string list \<Rightarrow> string list \<Rightarrow> string list \<times> string list" where
  "pop_higher t out [] = (out, [])"
| "pop_higher t out (tp # ops) =
     (case (prec tp, prec t) of
        (Some p_tp, Some p_t) \<Rightarrow>
          if (\<not> right_assoc tp \<and> p_tp \<ge> p_t) \<or> (right_assoc tp \<and> p_tp > p_t)
          then pop_higher t (out @ [tp]) ops
          else (out, tp # ops)
      | _ \<Rightarrow> (out, tp # ops))"

fun shunting_yard_loop :: "string list \<Rightarrow> string list \<Rightarrow> string list \<Rightarrow> string list" where
  "shunting_yard_loop [] out ops = out @ ops"
| "shunting_yard_loop (t # ts) out ops =
     (if match_identifier t then shunting_yard_loop ts (out @ [t]) ops
      else if t = ''('' then shunting_yard_loop ts out (t # ops)
      else if t = '')'' then
        (case pop_until_paren out ops of
           (out', []) \<Rightarrow> shunting_yard_loop ts out' []
         | (out', tp # ops') \<Rightarrow>
             shunting_yard_loop ts out' (if tp = ''('' then ops' else tp # ops'))
      else if prec t \<noteq> None then
        (case pop_higher t out ops of (out', ops') \<Rightarrow> shunting_yard_loop ts out' (t # ops'))
      else shunting_yard_loop ts out ops)"

definition shunting_yard :: "string list \<Rightarrow> string list" where
  "shunting_yard tokens = shunting_yard_loop tokens [] []"

subsection \<open>Building the tree\<close>

text \<open>
  \<open>_rpn_to_ast\<close>: the stack is a list whose head is the top; \<open>stack.pop()\<close> on an
  empty stack raises \<open>IndexError\<close>.  A token that is neither an identifier nor an
  operator is skipped.  The result is \<open>stack[-1] if stack else None\<close>.
\<close>

definition op_map :: "string \<Rightarrow> binop" where
  "op_map t = (if t = ''&'' then and_op else if t = ''^'' then xor_op else or_op)"

fun rpn_to_ast_loop :: "string list \<Rightarrow> ast list \<Rightarrow> py_error + ast list" where
  "rpn_to_ast_loop [] stack = Inr stack"
| "rpn_to_ast_loop (t # ts) stack =
     (if match_identifier t then rpn_to_ast_loop ts (IdN t # stack)
      else if t = ''~'' then
        (case stack of
           [] \<Rightarrow> Inl IndexError
         | a # st \<Rightarrow> rpn_to_ast_loop ts (NotN a # st))
      else if t = ''&'' \<or> t = ''^'' \<or> t = ''|'' then
        (case stack of
           [] \<Rightarrow> Inl IndexError
         | b # st \<Rightarrow>
            (case st of
               [] \<Rightarrow> Inl IndexError
             | a # st' \<Rightarrow> rpn_to_ast_loop ts (BinN (op_map t) a b # st')))
      else rpn_to_ast_loop ts stack)"

definition rpn_to_ast :: "string list \<Rightarrow> py_error + ast option" where
  "rpn_to_ast rpn = (case rpn_to_ast_loop rpn [] of
      Inl e \<Rightarrow> Inl e
    | Inr [] \<Rightarrow> Inr None
    | Inr (tp # _) \<Rightarrow> Inr (Some tp))"

subsection \<open>Lowering to gates\<close>

text \<open>
  The parser's \<open>_temp_counter\<close> is passed in and returned.  \<open>_new_temp\<close> increments it
  and names the temporary after the new value.
\<close>

definition new_temp :: "string \<Rightarrow> nat \<Rightarrow> string \<times> nat" where
  "new_temp base counter = (''tmp_'' @ base @ ''_'' @ str_nat (counter + 1), counter + 1)"

definition gate_name :: "binop \<Rightarrow> string" where
  "gate_name k = (case k of and_op \<Rightarrow> ''AND'' | or_op \<Rightarrow> ''OR'' | xor_op \<Rightarrow> ''XOR'')"

text \<open>
  \<open>_ast_to_gates(node, target, acc)\<close> returns the signal that carries the node's value;
  here it returns the list \<open>acc\<close> and the counter as well.  The temporary for a child
  is named before the child is lowered, as Python evaluates the arguments of the call.
\<close>

fun ast_to_gates :: "ast option \<Rightarrow> string \<Rightarrow> gate list \<Rightarrow> nat \<Rightarrow> string \<times> gate list \<times> nat" where
  "ast_to_gates None target acc counter = (target, acc, counter)"
| "ast_to_gates (Some (IdN src)) target acc counter =
     (if target \<noteq> src then (src, acc, counter) else (target, acc, counter))"
| "ast_to_gates (Some (NotN a)) target acc counter =
     (case new_temp ''n'' counter of (t, c1) \<Rightarrow>
      case ast_to_gates (Some a) t acc c1 of (a_sig, acc1, c2) \<Rightarrow>
        (target,
         acc1 @ [\<lparr>gate_type = ''NOT'', inputs = [a_sig], output_net = target,
                  instance_name = ''NOT_1_'' @ target\<rparr>],
         c2))"
| "ast_to_gates (Some (BinN k l r)) target acc counter =
     (case new_temp ''l'' counter of (t_l, c1) \<Rightarrow>
      case ast_to_gates (Some l) t_l acc c1 of (left_sig, acc1, c2) \<Rightarrow>
      case new_temp ''r'' c2 of (t_r, c3) \<Rightarrow>
      case ast_to_gates (Some r) t_r acc1 c3 of (right_sig, acc2, c4) \<Rightarrow>
        (target,
         acc2 @ [\<lparr>gate_type = gate_name k, inputs = [left_sig, right_sig],
                  output_net = target,
                  instance_name = gate_name k @ ''_2_'' @ target\<rparr>],
         c4))"

subsection \<open>From an expression, and from an assign statement, to gates\<close>

text \<open>
  \<open>_parse_boolean_expr_to_gates(expr, output)\<close>: the result holds the gate list and
  the counter after the call.
\<close>

definition parse_boolean_expr_to_gates ::
    "string \<Rightarrow> string \<Rightarrow> nat \<Rightarrow> (py_error + gate list \<times> nat) option" where
  "parse_boolean_expr_to_gates expr out counter =
     (case tokenize_boolean_expr (rewrite_ternary_to_bool expr) of
        None \<Rightarrow> None
      | Some tokens \<Rightarrow>
          Some (let rpn = shunting_yard tokens in
                if rpn = [] then Inr ([], counter)
                else (case rpn_to_ast rpn of
                        Inl e \<Rightarrow> Inl e
                      | Inr tree \<Rightarrow>
                          (case ast_to_gates tree out [] counter of
                             (_, gates, counter') \<Rightarrow> Inr (gates, counter')))))"

text \<open>
  \<open>_parse_assign_statement(line)\<close>: \<open>line[6:]\<close> drops the keyword; the statement is
  split at its first equals sign; a right-hand side that is one run of word characters
  becomes an ALIAS gate.
\<close>

definition parse_assign_statement :: "string \<Rightarrow> nat \<Rightarrow> (py_error + gate list \<times> nat) option" where
  "parse_assign_statement line counter =
     (let expr = strip (drop 6 line) in
      if CHR ''='' \<notin> set expr then Some (Inr ([], counter))
      else (case split_first CHR ''='' expr of (lhs, rhs) \<Rightarrow>
        let out = strip lhs;
            expression = rstrip_chars {CHR '';''} (strip rhs)
        in if match_word_only expression
           then Some (Inr ([\<lparr>gate_type = ''ALIAS'', inputs = [expression], output_net = out,
                              instance_name = []\<rparr>], counter))
           else parse_boolean_expr_to_gates expression out counter))"

section \<open>Gate-to-IC packer\<close>

text \<open>
  A Python \<open>dict\<close> whose order of insertion matters is a list of pairs with distinct
  keys: \<open>d[k] = v\<close> replaces the value of a key that is present, where it stands, and
  adds a new key at the end.
\<close>

fun dict_set :: "('k \<times> 'v) list \<Rightarrow> 'k \<Rightarrow> 'v \<Rightarrow> ('k \<times> 'v) list" where
  "dict_set [] k v = [(k, v)]"
| "dict_set ((k', v') # d) k v = (if k' = k then (k', v) # d else (k', v') # dict_set d k v)"

text \<open>
  The dataclass \<open>ICInstance\<close>; its field \<open>position\<close> belongs to the schematic
  placement and is left out.
\<close>

record ic_instance =
  part_number :: string
  package :: string
  instance_id :: string
  ic_gates :: "gate list"
  pin_assignments :: "(string \<times> string) list"

text \<open>
  An entry of \<open>ic_mappings\<close>.  The source's \<open>pinout\<close> dictionary holds the slots
  \<open>gate1\<close>, \<open>gate2\<close>, ... in this order, each with its input pins and its output pin,
  and after them the keys \<open>vcc\<close> and \<open>gnd\<close>.
\<close>

record ic_mapping =
  m_part_number :: string
  m_package :: string
  gates_per_ic :: nat
  slots :: "(string list \<times> string) list"
  vcc :: string
  gnd :: string

definition two_input_slots :: "(string list \<times> string) list" where
  "two_input_slots =
     [([''1'', ''2''], ''3''), ([''4'', ''5''], ''6''),
      ([''9'', ''10''], ''8''), ([''12'', ''13''], ''11'')]"

definition ic_mappings :: "string \<Rightarrow> ic_mapping option" where
  "ic_mappings t =
     (if t = ''AND'' then
        Some \<lparr>m_part_number = ''74HC08'', m_package = ''DIP-14'', gates_per_ic = 4,
              slots = two_input_slots, vcc = ''14'', gnd = ''7''\<rparr>
      else if t = ''OR'' then
        Some \<lparr>m_part_number = ''74HC32'', m_package = ''DIP-14'', gates_per_ic = 4,
              slots = two_input_slots, vcc = ''14'', gnd = ''7''\<rparr>
      else if t = ''XOR'' then
        Some \<lparr>m_part_number = ''74HC86'', m_package = ''DIP-14'', gates_per_ic = 4,
              slots = two_input_slots, vcc = ''14'', gnd = ''7''\<rparr>
      else if t = ''NOT'' then
        Some \<lparr>m_part_number = ''74HC04'', m_package = ''DIP-14'', gates_per_ic = 6,
              slots = [([''1''], ''2''), ([''3''], ''4''), ([''5''], ''6''),
                       ([''9''], ''8''), ([''11''], ''10''), ([''13''], ''12'')],
              vcc = ''14'', gnd = ''7''\<rparr>
      else if t = ''DFF'' then
        Some \<lparr>m_part_number = ''74HC74'', m_package = ''DIP-14'', gates_per_ic = 2,
              slots = [([''2'', ''3''], ''5''), ([''12'', ''11''], ''9'')],
              vcc = ''14'', gnd = ''7''\<rparr>
      else None)"

text \<open>
  The loop over \<open>enumerate(gate.inputs)\<close>: input \<open>j\<close> goes to the slot's input pin
  \<open>j\<close>; inputs beyond the slot's pins are skipped.
\<close>

fun assign_inputs :: "string list \<Rightarrow> string list \<Rightarrow> (string \<times> string) list \<Rightarrow> (string \<times> string) list" where
  "assign_inputs pins [] pa = pa"
| "assign_inputs [] (s # ins) pa = assign_inputs [] ins pa"
| "assign_inputs (p # pins) (s # ins) pa = assign_inputs pins ins (dict_set pa p s)"

text \<open>
  The loop over \<open>enumerate(ic_gates)\<close>.  \<open>gate_names\<close> lists all keys of the pinout,
  the slots and then \<open>vcc\<close> and \<open>gnd\<close>: at an index past the slots the entry is a pin
  name, not a slot, and reading its \<open>'output'\<close> raises \<open>TypeError\<close>; past all keys
  the gate is skipped.
\<close>

fun place_gates :: "ic_mapping \<Rightarrow> nat \<Rightarrow> gate list \<Rightarrow> ic_instance \<Rightarrow> py_error + ic_instance" where
  "place_gates m i [] ic = Inr ic"
| "place_gates m i (g # gs) ic =
     (if i < length (slots m) + 2 then
        (if i < length (slots m) then
           (case slots m ! i of (in_pins, out_pin) \<Rightarrow>
              place_gates m (i + 1) gs
                (ic\<lparr>pin_assignments :=
                      dict_set (assign_inputs in_pins (inputs g) (pin_assignments ic))
                        out_pin (output_net g),
                    ic_gates := ic_gates ic @ [g]\<rparr>))
         else Inl TypeError)
      else place_gates m (i + 1) gs ic)"

text \<open>
  The body of the loop over \<open>ic_num\<close>: \<open>n\<close> is \<open>len(ic_instances)\<close> when the IC is
  created.
\<close>

definition make_ic :: "ic_mapping \<Rightarrow> gate list \<Rightarrow> nat \<Rightarrow> nat \<Rightarrow> py_error + ic_instance" where
  "make_ic m gate_list ic_num n =
     (let start_idx = ic_num * gates_per_ic m;
          end_idx = min (start_idx + gates_per_ic m) (length gate_list);
          gs = take (end_idx - start_idx) (drop start_idx gate_list)
      in case place_gates m 0 gs
                \<lparr>part_number = m_part_number m, package = m_package m,
                 instance_id = ''U'' @ str_nat (n + 1), ic_gates = [],
                 pin_assignments = []\<rparr> of
           Inl e \<Rightarrow> Inl e
         | Inr ic \<Rightarrow>
             Inr (ic\<lparr>pin_assignments :=
                   dict_set (dict_set (pin_assignments ic) (vcc m) ''VCC'') (gnd m) ''GND''\<rparr>))"

fun make_ics :: "ic_mapping \<Rightarrow> gate list \<Rightarrow> nat list \<Rightarrow> ic_instance list \<Rightarrow> py_error + ic_instance list" where
  "make_ics m gate_list [] ic_instances = Inr ic_instances"
| "make_ics m gate_list (ic_num # rest) ic_instances =
     (case make_ic m gate_list ic_num (length ic_instances) of
        Inl e \<Rightarrow> Inl e
      | Inr ic \<Rightarrow> make_ics m gate_list rest (ic_instances @ [ic]))"

text \<open>The loop over \<open>gate_counts.items()\<close>.\<close>

fun create_ics :: "(string \<times> gate list) list \<Rightarrow> ic_instance list \<Rightarrow> py_error + ic_instance list" where
  "create_ics [] ic_instances = Inr ic_instances"
| "create_ics ((t, gate_list) # groups) ic_instances =
     (case ic_mappings t of
        None \<Rightarrow> create_ics groups ic_instances
      | Some m \<Rightarrow>
          (case make_ics m gate_list
                  [0 ..< (length gate_list + gates_per_ic m - 1) div gates_per_ic m]
                  ic_instances of
             Inl e \<Rightarrow> Inl e
           | Inr ics \<Rightarrow> create_ics groups ics))"

text \<open>
  \<open>gate_counts[gate.gate_type].append(gate)\<close> on the \<open>defaultdict(list)\<close>: a new type
  is added at the end with the one gate.
\<close>

fun dict_append :: "(string \<times> gate list) list \<Rightarrow> string \<Rightarrow> gate \<Rightarrow> (string \<times> gate list) list" where
  "dict_append [] k g = [(k, [g])]"
| "dict_append ((k', gs) # d) k g =
     (if k' = k then (k', gs @ [g]) # d else (k', gs) # dict_append d k g)"

text \<open>
  The first loop of \<open>map_gates_to_ics\<close>: an ALIAS gate adds the pair
  \<open>(gate.output, gate.inputs[0])\<close> to \<open>passthrough_links\<close>; \<open>inputs[0]\<close> of an empty
  list raises \<open>IndexError\<close>.
\<close>

fun group_gates :: "gate list \<Rightarrow> (string \<times> gate list) list \<Rightarrow> (string \<times> string) list \<Rightarrow>
    py_error + (string \<times> gate list) list \<times> (string \<times> string) list" where
  "group_gates [] gate_counts links = Inr (gate_counts, links)"
| "group_gates (g # gs) gate_counts links =
     (if gate_type g = ''ALIAS'' then
        (case inputs g of
           [] \<Rightarrow> Inl IndexError
         | s # _ \<Rightarrow> group_gates gs gate_counts (links @ [(output_net g, s)]))
      else group_gates gs (dict_append gate_counts (gate_type g) g) links)"

definition alias_ic :: "(string \<times> string) list \<Rightarrow> ic_instance" where
  "alias_ic links =
     \<lparr>part_number = ''ALIAS'', package = ''N/A'', instance_id = ''ALIAS'', ic_gates = [],
      pin_assignments = fold (\<lambda>(dst, src) pa. dict_set pa dst src) links []\<rparr>"

definition map_gates_to_ics :: "gate list \<Rightarrow> py_error + ic_instance list" where
  "map_gates_to_ics gates =
     (case group_gates gates [] [] of
        Inl e \<Rightarrow> Inl e
      | Inr (gate_counts, links) \<Rightarrow>
          (case create_ics gate_counts [] of
             Inl e \<Rightarrow> Inl e
           | Inr ics \<Rightarrow> Inr (if links \<noteq> [] then ics @ [alias_ic links] else ics)))"

section \<open>The carry assignment of the full adder\<close>

lemma c1_tokens: "tokenize_boolean_expr (rewrite_ternary_to_bool ''(a&b)|(cin&(a^b))'') = Some
  [''('', ''a'', ''&'', ''b'', '')'', ''|'', ''('', ''cin'', ''&'', ''('',
   ''a'', ''^'', ''b'', '')'', '')'']"
  by code_simp

lemma c1_rpn: "shunting_yard  [''('', ''a'', ''&'', ''b'', '')'', ''|'', ''('', ''cin'', ''&'', ''('',
   ''a'', ''^'', ''b'', '')'', '')''] = [''a'', ''b'', ''&'', ''cin'', ''a'', ''b'', ''^'', ''&'', ''|'']"
  by code_simp

lemma c1_ast: "rpn_to_ast [''a'', ''b'', ''&'', ''cin'', ''a'', ''b'', ''^'', ''&'', ''|''] =
   Inr (Some (BinN or_op (BinN and_op (IdN ''a'') (IdN ''b'')) (BinN and_op (IdN ''cin'') (BinN xor_op (IdN ''a'') (IdN ''b'')))))"
  by code_simp

lemma c1_split:
  "strip '' co = (a&b)|(cin&(a^b));'' = ''co = (a&b)|(cin&(a^b));''"
  "split_first CHR ''='' ''co = (a&b)|(cin&(a^b));'' = (''co '', '' (a&b)|(cin&(a^b));'')"
  "strip ''co '' = ''co''"
  "strip '' (a&b)|(cin&(a^b));'' = ''(a&b)|(cin&(a^b));''"
  "rstrip_chars {CHR '';''} ''(a&b)|(cin&(a^b));'' = ''(a&b)|(cin&(a^b))''"
  "match_word_only ''(a&b)|(cin&(a^b))'' = False"
  by code_simp+

lemma c1_parse: "parse_assign_statement ''assign co = (a&b)|(cin&(a^b));'' c = Some
  (Inr ([\<lparr>gate_type = ''AND'', inputs = [''a'', ''b''],
            output_net = ''tmp_l_'' @ str_nat (c + 1), instance_name = ''AND_2_tmp_l_'' @ str_nat (c + 1)\<rparr>,
         \<lparr>gate_type = ''XOR'', inputs = [''a'', ''b''],
            output_net = ''tmp_r_'' @ str_nat (c + 6), instance_name = ''XOR_2_tmp_r_'' @ str_nat (c + 6)\<rparr>,
         \<lparr>gate_type = ''AND'', inputs = [''cin'', ''tmp_r_'' @ str_nat (c + 6)],
            output_net = ''tmp_r_'' @ str_nat (c + 4), instance_name = ''AND_2_tmp_r_'' @ str_nat (c + 4)\<rparr>,
         \<lparr>gate_type = ''OR'', inputs = [''tmp_l_'' @ str_nat (c + 1), ''tmp_r_'' @ str_nat (c + 4)],
            output_net = ''co'', instance_name = ''OR_2_co''\<rparr>],
        c + 8))"
  by (simp add: parse_assign_statement_def parse_boolean_expr_to_gates_def c1_split
      c1_tokens c1_rpn c1_ast new_temp_def gate_name_def Let_def eval_nat_numeral)

lemma c1_pack: "map_gates_to_ics [\<lparr>gate_type = ''AND'', inputs = [''a'', ''b''],
            output_net = t1, instance_name = n1\<rparr>,
         \<lparr>gate_type = ''XOR'', inputs = [''a'', ''b''],
            output_net = t2, instance_name = n2\<rparr>,
         \<lparr>gate_type = ''AND'', inputs = [''cin'', t2],
            output_net = t3, instance_name = n3\<rparr>,
         \<lparr>gate_type = ''OR'', inputs = [t1, t3],
            output_net = ''co'', instance_name = n4\<rparr>] =
   Inr [\<lparr>part_number = ''74HC08'', package = ''DIP-14'', instance_id = ''U1'',
         ic_gates =
           [\<lparr>gate_type = ''AND'', inputs = [''a'', ''b''],
               output_net = t1, instance_name = n1\<rparr>,
            \<lparr>gate_type = ''AND'', inputs = [''cin'', t2],
               output_net = t3, instance_name = n3\<rparr>],
         pin_assignments =
           [(''1'', ''a''), (''2'', ''b''), (''3'', t1),
            (''4'', ''cin''), (''5'', t2), (''6'', t3),
            (''14'', ''VCC''), (''7'', ''GND'')]\<rparr>,
      \<lparr>part_number = ''74HC86'', package = ''DIP-14'', instance_id = ''U2'',
         ic_gates =
           [\<lparr>gate_type = ''XOR'', inputs = [''a'', ''b''],
               output_net = t2, instance_name = n2\<rparr>],
         pin_assignments =
           [(''1'', ''a''), (''2'', ''b''), (''3'', t2),
            (''14'', ''VCC''), (''7'', ''GND'')]\<rparr>,
      \<lparr>part_number = ''74HC32'', package = ''DIP-14'', instance_id = ''U3'',
         ic_gates =
           [\<lparr>gate_type = ''OR'', inputs = [t1, t3],
               output_net = ''co'', instance_name = n4\<rparr>],
         pin_assignments =
           [(''1'', t1), (''2'', t3), (''3'', ''co''),
            (''14'', ''VCC''), (''7'', ''GND'')]\<rparr>]"
  by (simp add: map_gates_to_ics_def ic_mappings_def make_ic_def two_input_slots_def Let_def
        str_nat_small)


text \<open>
  Claim C1.  For the statement \<open>assign co = (a&b)|(cin&(a^b));\<close>, at any value \<open>c\<close>
  of the parser's counter, the compiler returns exactly four gates in this order: AND of
  \<open>a\<close>, \<open>b\<close> driving a temporary \<open>t1\<close>; XOR of \<open>a\<close>, \<open>b\<close> driving \<open>t2\<close>; AND of \<open>cin\<close>,
  \<open>t2\<close> driving \<open>t3\<close>; OR of \<open>t1\<close>, \<open>t3\<close> driving \<open>co\<close>.  The three temporaries differ
  from each other and from the names of the statement.  Packing the four gates gives
  exactly three ICs: a 74HC08 holding the two AND gates, a 74HC86 holding the XOR and a
  74HC32 holding the OR.
\<close>

theorem C1_carry_gates_and_packing:
  "(let t1 = ''tmp_l_'' @ str_nat (c + 1);
        t2 = ''tmp_r_'' @ str_nat (c + 6);
        t3 = ''tmp_r_'' @ str_nat (c + 4);
        g1 = \<lparr>gate_type = ''AND'', inputs = [''a'', ''b''], output_net = t1,
                instance_name = ''AND_2_'' @ t1\<rparr>;
        g2 = \<lparr>gate_type = ''XOR'', inputs = [''a'', ''b''], output_net = t2,
                instance_name = ''XOR_2_'' @ t2\<rparr>;
        g3 = \<lparr>gate_type = ''AND'', inputs = [''cin'', t2], output_net = t3,
                instance_name = ''AND_2_'' @ t3\<rparr>;
        g4 = \<lparr>gate_type = ''OR'', inputs = [t1, t3], output_net = ''co'',
                instance_name = ''OR_2_co''\<rparr>
    in parse_assign_statement ''assign co = (a&b)|(cin&(a^b));'' c =
         Some (Inr ([g1, g2, g3, g4], c + 8)) \<and>
       distinct [t1, t2, t3, ''a'', ''b'', ''cin'', ''co''] \<and>
       map_gates_to_ics [g1, g2, g3, g4] =
         Inr [\<lparr>part_number = ''74HC08'', package = ''DIP-14'', instance_id = ''U1'',
                ic_gates = [g1, g3],
                pin_assignments =
                  [(''1'', ''a''), (''2'', ''b''), (''3'', t1), (''4'', ''cin''), (''5'', t2),
                   (''6'', t3), (''14'', ''VCC''), (''7'', ''GND'')]\<rparr>,
              \<lparr>part_number = ''74HC86'', package = ''DIP-14'', instance_id = ''U2'',
                ic_gates = [g2],
                pin_assignments =
                  [(''1'', ''a''), (''2'', ''b''), (''3'', t2), (''14'', ''VCC''),
                   (''7'', ''GND'')]\<rparr>,
              \<lparr>part_number = ''74HC32'', package = ''DIP-14'', instance_id = ''U3'',
                ic_gates = [g4],
                pin_assignments =
                  [(''1'', t1), (''2'', t3), (''3'', ''co''), (''14'', ''VCC''),
                   (''7'', ''GND'')]\<rparr>])"
proof -
  have "str_nat (c + 6) \<noteq> str_nat (c + 4)"
    using str_nat_inj [of "c + 6" "c + 4"] by auto
  then show ?thesis
    unfolding Let_def by (simp add: c1_parse c1_pack)
qed

section \<open>Malformed expressions\<close>

text \<open>A character of an expression that holds no identifier and no operator.\<close>

definition paren_or_space :: "char \<Rightarrow> bool" where
  "paren_or_space ch = (ch = CHR ''('' \<or> ch = CHR '')'' \<or> isspace ch)"

lemma set_strip_subset: "set (strip s) \<subseteq> set s"
proof -
  have "set (strip s) \<subseteq> set (lstrip s)"
    unfolding strip_def rstrip_def by (metis set_dropWhileD set_rev subsetI)
  moreover have "set (lstrip s) \<subseteq> set s"
    unfolding lstrip_def by (auto dest: set_dropWhileD)
  ultimately show ?thesis by blast
qed

lemma not_isspace_paren [simp]: "\<not> isspace CHR ''(''" "\<not> isspace CHR '')''"
  by (simp_all add: isspace_def)

lemma tokenize_loop_parens:
  "list_all paren_or_space s \<Longrightarrow>
   tokenize_loop s toks = Some (toks @ map (\<lambda>ch. [ch]) (filter (\<lambda>ch. \<not> isspace ch) s))"
proof (induction s arbitrary: toks)
  case Nil
  show ?case by (subst tokenize_loop.simps) simp
next
  case (Cons ch s)
  then show ?case
    by (subst tokenize_loop.simps) (auto simp: paren_or_space_def)
qed

definition only_open :: "string list \<Rightarrow> bool" where
  "only_open ts = list_all (\<lambda>t. t = ''('') ts"

lemma pop_until_paren_open: "only_open ops \<Longrightarrow> pop_until_paren out ops = (out, ops)"
  by (cases ops) (simp_all add: only_open_def)

lemma not_ident_paren [simp]: "\<not> match_identifier ''(''" "\<not> match_identifier '')''"
  by (simp_all add: match_identifier_def ascii_id_start_def)

lemma shunting_yard_loop_parens:
  "list_all (\<lambda>t. t = ''('' \<or> t = '')'') ts \<Longrightarrow> only_open out \<Longrightarrow> only_open ops \<Longrightarrow>
   only_open (shunting_yard_loop ts out ops)"
proof (induction ts arbitrary: out ops)
  case Nil
  then show ?case by (simp add: only_open_def)
next
  case (Cons t ts)
  from Cons.prems(1) have ts: "list_all (\<lambda>t. t = ''('' \<or> t = '')'') ts" by simp
  from Cons.prems(1) consider "t = ''(''" | "t = '')''" by auto
  then show ?case
  proof cases
    case 1
    have "only_open (t # ops)" using 1 Cons.prems(3) by (simp add: only_open_def)
    from Cons.IH [OF ts Cons.prems(2) this] 1 show ?thesis by simp
  next
    case 2
    show ?thesis
    proof (cases ops)
      case Nil
      with 2 Cons.IH [OF ts Cons.prems(2), of "[]"] show ?thesis
        by (simp add: only_open_def)
    next
      case (Cons tp ops')
      with Cons.prems(3) have tp: "tp = ''(''" and ops': "only_open ops'"
        by (simp_all add: only_open_def)
      from 2 Cons tp Cons.IH [OF ts Cons.prems(2) ops'] show ?thesis by simp
    qed
  qed
qed

lemma rpn_to_ast_loop_open: "only_open rpn \<Longrightarrow> rpn_to_ast_loop rpn stack = Inr stack"
  by (induction rpn arbitrary: stack) (simp_all add: only_open_def)

lemma parens_compile_empty:
  assumes "list_all paren_or_space expr"
  shows "parse_boolean_expr_to_gates expr out c = Some (Inr ([], c))"
proof -
  have e: "list_all paren_or_space (strip expr)"
    using assms set_strip_subset [of expr] by (auto simp: list_all_iff)
  have "\<not> paren_or_space CHR ''?''"
    by (simp add: paren_or_space_def isspace_def)
  with e have q: "CHR ''?'' \<notin> set (strip expr)"
    unfolding list_all_iff by blast
  then have rw: "rewrite_ternary_to_bool expr = strip expr"
    by (simp add: rewrite_ternary_to_bool_def)
  let ?toks = "map (\<lambda>ch. [ch]) (filter (\<lambda>ch. \<not> isspace ch) (strip expr))"
  have tk: "tokenize_boolean_expr (strip expr) = Some ?toks"
    using tokenize_loop_parens [OF e, of "[]"] by (simp add: tokenize_boolean_expr_def)
  have "\<And>ch. paren_or_space ch \<Longrightarrow> \<not> isspace ch \<Longrightarrow> [ch] = ''('' \<or> [ch] = '')''"
    unfolding paren_or_space_def by blast
  with e have "list_all (\<lambda>t. t = ''('' \<or> t = '')'') ?toks"
    unfolding list_all_iff by auto
  then have "only_open (shunting_yard ?toks)"
    unfolding shunting_yard_def
    by (rule shunting_yard_loop_parens) (simp_all add: only_open_def)
  then have "rpn_to_ast (shunting_yard ?toks) = Inr None"
    by (simp add: rpn_to_ast_def rpn_to_ast_loop_open)
  then show ?thesis
    by (simp add: parse_boolean_expr_to_gates_def rw tk Let_def)
qed

lemma ast_to_gates_id: "ast_to_gates (Some (IdN src)) target acc c = (src, acc, c)"
  by simp

lemma unbalanced_open_steps:
  "tokenize_boolean_expr (rewrite_ternary_to_bool ''(a & b'') = Some [''('', ''a'', ''&'', ''b'']"
  "shunting_yard [''('', ''a'', ''&'', ''b''] = [''a'', ''b'', ''&'', ''('']"
  "rpn_to_ast [''a'', ''b'', ''&'', ''(''] = Inr (Some (BinN and_op (IdN ''a'') (IdN ''b'')))"
  by code_simp+

lemma unbalanced_open_compiles:
  "parse_boolean_expr_to_gates ''(a & b'' out c =
     Some (Inr ([\<lparr>gate_type = ''AND'', inputs = [''a'', ''b''], output_net = out,
                  instance_name = ''AND_2_'' @ out\<rparr>], c + 2))"
  by (simp add: parse_boolean_expr_to_gates_def unbalanced_open_steps new_temp_def
        gate_name_def Let_def)

text \<open>A trailing operator: \<open>_rpn_to_ast\<close> pops from the empty stack.\<close>

lemma trailing_operator_steps:
  "tokenize_boolean_expr (rewrite_ternary_to_bool ''a &'') = Some [''a'', ''&'']"
  "shunting_yard [''a'', ''&''] = [''a'', ''&'']"
  "rpn_to_ast [''a'', ''&''] = Inl IndexError"
  by code_simp+

lemma trailing_operator_raises:
  "parse_boolean_expr_to_gates ''a &'' out c = Some (Inl IndexError)"
  by (simp add: parse_boolean_expr_to_gates_def trailing_operator_steps Let_def)

text \<open>
  Claim C4, as stated, fails: the expression \<open>(a & b\<close> has an unmatched parenthesis,
  and the compiler returns one gate for it, not the empty list.
\<close>

theorem C4_unbalanced_counterexample:
  "parse_boolean_expr_to_gates ''(a & b'' ''y'' 0 =
     Some (Inr ([\<lparr>gate_type = ''AND'', inputs = [''a'', ''b''], output_net = ''y'',
                  instance_name = ''AND_2_y''\<rparr>], 2)) \<and>
   parse_boolean_expr_to_gates ''(a & b'' ''y'' 0 \<noteq> Some (Inr ([], 0))"
  by (simp add: unbalanced_open_compiles)

text \<open>
  Claim C4, amended.  An expression made only of parentheses and white space (an empty
  subexpression such as \<open>()\<close>, balanced or not) gives the empty gate list, and the
  compiler returns without raising.  An unmatched parenthesis around operands does not
  empty the assignment: \<open>(a & b\<close> compiles to the one AND gate that drives the
  left-hand side.
\<close>

theorem C4_empty_subexpression_no_gates:
  "(list_all paren_or_space expr \<longrightarrow>
      parse_boolean_expr_to_gates expr out c = Some (Inr ([], c))) \<and>
   parse_boolean_expr_to_gates ''(a & b'' out c =
     Some (Inr ([\<lparr>gate_type = ''AND'', inputs = [''a'', ''b''], output_net = out,
                  instance_name = ''AND_2_'' @ out\<rparr>], c + 2))"
  using parens_compile_empty [of expr out c] unbalanced_open_compiles [of out c]
  by simp

theorem C4_empty_subexpression_witness:
  "list_all paren_or_space ''()'' \<and>
   parse_boolean_expr_to_gates ''()'' ''y'' 0 = Some (Inr ([], 0))"
  using C4_empty_subexpression_no_gates [of "''()''" "''y''" 0]
  by (simp add: paren_or_space_def)

section \<open>Alias assignments\<close>

text \<open>
  Claim C9 at the statement \<open>assign y = a ;\<close>, whose right-hand side is the single
  identifier \<open>a\<close>.  The source strips the white space first and the semicolon after,
  which leaves \<open>a\<close> followed by a blank; this is not a run of word characters, the
  expression compiler takes over, finds a lone identifier and emits nothing: no ALIAS gate
  is returned.
\<close>

theorem C9_alias_lost_before_semicolon:
  "parse_assign_statement ''assign y = a ;'' c = Some (Inr ([], c))"
  by code_simp

lemma alias_without_blank:
  "parse_assign_statement ''assign y = a;'' c =
     Some (Inr ([\<lparr>gate_type = ''ALIAS'', inputs = [''a''], output_net = ''y'',
                  instance_name = []\<rparr>], c))"
  by code_simp

section \<open>Ternary rewriting twice\<close>

text \<open>
  The depth of parentheses after a string, counted as \<open>find_top_ternary\<close> counts it
  (a closing parenthesis at depth 0 leaves the depth at 0), and the strings in which
  every closing parenthesis has its opening one before it.
\<close>

fun paren_depth :: "nat \<Rightarrow> string \<Rightarrow> nat" where
  "paren_depth d [] = d"
| "paren_depth d (c # cs) =
     (if c = CHR ''('' then paren_depth (d + 1) cs
      else if c = CHR '')'' then paren_depth (d - 1) cs
      else paren_depth d cs)"

fun closes_matched :: "nat \<Rightarrow> string \<Rightarrow> bool" where
  "closes_matched d [] = True"
| "closes_matched d (c # cs) =
     (if c = CHR ''('' then closes_matched (d + 1) cs
      else if c = CHR '')'' then d > 0 \<and> closes_matched (d - 1) cs
      else closes_matched d cs)"

text \<open>A question mark that the scan meets at depth 0.\<close>

fun top_question :: "nat \<Rightarrow> string \<Rightarrow> bool" where
  "top_question d [] = False"
| "top_question d (c # cs) =
     (if c = CHR ''('' then top_question (d + 1) cs
      else if c = CHR '')'' then top_question (d - 1) cs
      else if c = CHR ''?'' \<and> d = 0 then True
      else top_question d cs)"

lemma paren_depth_append: "paren_depth d (xs @ ys) = paren_depth (paren_depth d xs) ys"
  by (induction xs arbitrary: d) simp_all

lemma closes_matched_append:
  "closes_matched d (xs @ ys) = (closes_matched d xs \<and> closes_matched (paren_depth d xs) ys)"
  by (induction xs arbitrary: d) auto

lemma top_question_append:
  "top_question d (xs @ ys) = (top_question d xs \<or> top_question (paren_depth d xs) ys)"
  by (induction xs arbitrary: d) auto

lemma no_top_question_no_ternary:
  "\<not> top_question d s \<Longrightarrow> find_top_ternary_loop s i d None = None"
  by (induction s arbitrary: i d) (auto split: if_splits)

lemma matched_shift:
  "closes_matched e s \<Longrightarrow>
     closes_matched (e + n) s \<and> paren_depth (e + n) s = paren_depth e s + n \<and>
     (n > 0 \<longrightarrow> \<not> top_question (e + n) s)"
proof (induction s arbitrary: e)
  case Nil
  then show ?case by simp
next
  case (Cons c cs)
  show ?case
  proof (cases "c = CHR ''(''")
    case True
    with Cons.prems have "closes_matched (e + 1) cs" by simp
    from Cons.IH [OF this] True show ?thesis by simp
  next
    case False
    show ?thesis
    proof (cases "c = CHR '')''")
      case True
      with Cons.prems obtain e' where e': "e = Suc e'" and "closes_matched e' cs"
        by (cases e) simp_all
      from Cons.IH [OF this(2)] True show ?thesis
        by (simp add: e')
    next
      case c: False
      with False Cons.prems have "closes_matched e cs" by simp
      from Cons.IH [OF this] False c show ?thesis by simp
    qed
  qed
qed

lemma matched_at: "closes_matched 0 s \<Longrightarrow> closes_matched d s"
  using matched_shift [of 0 s d] by simp

lemma depth_at: "closes_matched 0 s \<Longrightarrow> paren_depth d s = paren_depth 0 s + d"
  using matched_shift [of 0 s d] by simp

lemma no_top_question_inside: "closes_matched 0 s \<Longrightarrow> d > 0 \<Longrightarrow> \<not> top_question d s"
  using matched_shift [of 0 s d] by simp

text \<open>White space at the ends does not count.\<close>

lemma spaces_neutral:
  "list_all isspace ws \<Longrightarrow> paren_depth d ws = d \<and> closes_matched d ws"
  by (induction ws) auto

lemma list_all_takeWhile: "list_all P (takeWhile P s)"
  by (induction s) simp_all

lemma lstrip_split: "\<exists>ws. s = ws @ lstrip s \<and> list_all isspace ws"
  unfolding lstrip_def
  by (rule exI [of _ "takeWhile isspace s"]) (simp add: list_all_takeWhile)

lemma rstrip_split: "\<exists>ws. s = rstrip s @ ws \<and> list_all isspace ws"
proof -
  from lstrip_split [of "rev s"] obtain ws where
    "rev s = ws @ lstrip (rev s)" "list_all isspace ws" by blast
  then have "s = rev (lstrip (rev s)) @ rev ws" "list_all isspace (rev ws)"
    by (metis rev_append rev_rev_ident, simp)
  then show ?thesis unfolding rstrip_def lstrip_def by blast
qed

lemma strip_split: "\<exists>ws ws'. s = ws @ strip s @ ws' \<and> list_all isspace ws \<and> list_all isspace ws'"
proof -
  from lstrip_split [of s] obtain ws where a: "s = ws @ lstrip s" "list_all isspace ws"
    by blast
  from rstrip_split [of "lstrip s"] obtain ws' where
    b: "lstrip s = strip s @ ws'" "list_all isspace ws'"
    unfolding strip_def by blast
  from a b have "s = ws @ strip s @ ws'" by simp
  with a b show ?thesis by blast
qed

lemma strip_matched:
  "closes_matched 0 s \<Longrightarrow> closes_matched 0 (strip s) \<and> paren_depth 0 (strip s) = paren_depth 0 s"
proof -
  assume m: "closes_matched 0 s"
  from strip_split [of s] obtain ws ws' where
    s: "s = ws @ strip s @ ws'" and ws: "list_all isspace ws" "list_all isspace ws'"
    by blast
  from m s have "closes_matched 0 (ws @ strip s @ ws')" by simp
  then have "closes_matched 0 (strip s)"
    using spaces_neutral [OF ws(1), of 0] by (simp add: closes_matched_append)
  moreover have "paren_depth 0 (ws @ strip s @ ws') = paren_depth 0 (strip s)"
    using spaces_neutral [OF ws(1), of 0] spaces_neutral [OF ws(2)]
    by (simp add: paren_depth_append)
  ultimately show ?thesis using s by simp
qed

text \<open>Where the scan stops: the question mark and the colon it returns are at depth 0.\<close>

lemma find_top_ternary_loop_depths:
  "find_top_ternary_loop s i d qp = Some (q, k) \<Longrightarrow> (\<forall>p. qp = Some p \<longrightarrow> p < i) \<Longrightarrow>
     paren_depth d (take (k - i) s) = 0 \<and> s ! (k - i) = CHR '':'' \<and>
     (qp = None \<longrightarrow> paren_depth d (take (q - i) s) = 0 \<and> s ! (q - i) = CHR ''?'')"
proof (induction s arbitrary: i d qp)
  case Nil
  then show ?case by simp
next
  case (Cons c cs)
  show ?case
  proof (cases "c = CHR '':'' \<and> d = 0 \<and> qp \<noteq> None")
    case True
    with Cons.prems(1) have "k = i" by auto
    with True show ?thesis by auto
  next
    case False
    then obtain d' q' where
      step: "find_top_ternary_loop cs (i + 1) d' q' = Some (q, k)" and
      q': "q' = qp \<or> (qp = None \<and> q' = Some i \<and> c = CHR ''?'' \<and> d = 0)" and
      d': "\<And>xs. paren_depth d (c # xs) = paren_depth d' xs"
      using Cons.prems(1) by (auto split: if_splits)
    have pre: "\<forall>p. q' = Some p \<longrightarrow> p < i + 1"
      using q' Cons.prems(2) by auto
    from find_top_ternary_loop_bounds [OF step pre]
    have b: "i + 1 \<le> k" "\<forall>p. q' = Some p \<longrightarrow> q = p" "q' = None \<longrightarrow> i + 1 \<le> q"
      by simp_all
    from b(1) have k: "k - i = Suc (k - (i + 1))" by simp
    from Cons.IH [OF step pre]
    have ih: "paren_depth d' (take (k - (i + 1)) cs) = 0" "cs ! (k - (i + 1)) = CHR '':''"
      "q' = None \<longrightarrow> paren_depth d' (take (q - (i + 1)) cs) = 0 \<and> cs ! (q - (i + 1)) = CHR ''?''"
      by simp_all
    have main: "paren_depth d (take (k - i) (c # cs)) = 0 \<and> (c # cs) ! (k - i) = CHR '':''"
      using ih(1,2) d' by (simp add: k)
    have "paren_depth d (take (q - i) (c # cs)) = 0 \<and> (c # cs) ! (q - i) = CHR ''?''"
      if "qp = None"
    proof (cases "q' = None")
      case True
      with b(3) have "q - i = Suc (q - (i + 1))" by simp
      with ih(3) True d' show ?thesis by simp
    next
      case False
      with q' that have "q' = Some i" "c = CHR ''?''" "d = 0" by auto
      with b(2) show ?thesis by simp
    qed
    with main show ?thesis by blast
  qed
qed

lemma find_top_ternary_shape:
  assumes "find_top_ternary s = Some (q, k)"
  shows "take k s = take q s @ CHR ''?'' # take (k - (q + 1)) (drop (q + 1) s)"
    and "s = take k s @ CHR '':'' # drop (k + 1) s"
    and "paren_depth 0 (take q s) = 0"
    and "paren_depth 0 (take k s) = 0"
proof -
  from assms have b: "q < k" "k < length s"
    using find_top_ternary_bounds [of s q k] by auto
  from assms have d: "paren_depth 0 (take k s) = 0" "s ! k = CHR '':''"
    "paren_depth 0 (take q s) = 0" "s ! q = CHR ''?''"
    using find_top_ternary_loop_depths [of s 0 0 None q k]
    by (simp_all add: find_top_ternary_def)
  from b have "s = take k s @ s ! k # drop (Suc k) s"
    by (simp add: id_take_nth_drop)
  with d show "s = take k s @ CHR '':'' # drop (k + 1) s" by simp
  from b have "take k s = take q (take k s) @ take k s ! q # drop (Suc q) (take k s)"
    by (intro id_take_nth_drop) simp
  then have "take k s = take q s @ s ! q # take (k - (q + 1)) (drop (q + 1) s)"
    using b by (simp add: min_def drop_take)
  with d show "take k s = take q s @ CHR ''?'' # take (k - (q + 1)) (drop (q + 1) s)"
    by simp
  show "paren_depth 0 (take q s) = 0" "paren_depth 0 (take k s) = 0"
    using d by simp_all
qed

lemma ternary_parts_matched:
  assumes f: "find_top_ternary s = Some (q, k)" and m: "closes_matched 0 s"
  shows "closes_matched 0 (take q s) \<and> paren_depth 0 (take q s) = 0"
    and "closes_matched 0 (take (k - (q + 1)) (drop (q + 1) s)) \<and>
         paren_depth 0 (take (k - (q + 1)) (drop (q + 1) s)) = 0"
    and "closes_matched 0 (drop (k + 1) s) \<and> paren_depth 0 (drop (k + 1) s) = paren_depth 0 s"
proof -
  let ?c = "take q s" and ?t = "take (k - (q + 1)) (drop (q + 1) s)" and ?e = "drop (k + 1) s"
  from find_top_ternary_shape [OF f]
  have tk: "take k s = ?c @ CHR ''?'' # ?t" and s: "s = take k s @ CHR '':'' # ?e"
    and c0: "paren_depth 0 ?c = 0" and k0: "paren_depth 0 (take k s) = 0" by blast+
  from k0 c0 have t0: "paren_depth 0 ?t = 0"
    by (simp add: tk paren_depth_append)
  from m have "closes_matched 0 (take k s @ CHR '':'' # ?e)"
    using s by simp
  then have mk: "closes_matched 0 (take k s)" and me: "closes_matched 0 ?e"
    using k0 by (simp_all add: closes_matched_append)
  from mk have "closes_matched 0 (?c @ CHR ''?'' # ?t)"
    by (simp add: tk)
  then have mc: "closes_matched 0 ?c" and mt: "closes_matched 0 ?t"
    using c0 by (simp_all add: closes_matched_append)
  have "paren_depth 0 s = paren_depth 0 (take k s @ CHR '':'' # ?e)"
    using s by simp
  also have "\<dots> = paren_depth 0 ?e"
    using k0 by (simp add: paren_depth_append)
  finally have "paren_depth 0 ?e = paren_depth 0 s" by simp
  with mc mt me c0 t0 show "closes_matched 0 ?c \<and> paren_depth 0 ?c = 0"
    and "closes_matched 0 ?t \<and> paren_depth 0 ?t = 0"
    and "closes_matched 0 ?e \<and> paren_depth 0 ?e = paren_depth 0 s"
    by simp_all
qed

text \<open>The string that \<open>rewrite\<close> builds from the three rewritten parts.\<close>

definition ternary_form :: "string \<Rightarrow> string \<Rightarrow> string \<Rightarrow> string" where
  "ternary_form c t e = ''(('' @ c @ '') & ('' @ t @ '')) | ((~('' @ c @ '')) & ('' @ e @ ''))''"

lemma rewrite_found:
  "find_top_ternary s = Some (q, k) \<Longrightarrow>
   rewrite s = ternary_form (rewrite (strip (take q s)))
     (rewrite (strip (take (k - (q + 1)) (drop (q + 1) s))))
     (rewrite (strip (drop (k + 1) s)))"
  by (subst rewrite.simps) (simp add: ternary_form_def)

lemma rewrite_not_found: "find_top_ternary s = None \<Longrightarrow> rewrite s = s"
  by (subst rewrite.simps) simp

lemma ternary_form_matched:
  assumes c: "closes_matched 0 c" "paren_depth 0 c = 0"
    and t: "closes_matched 0 t" "paren_depth 0 t = 0"
    and e: "closes_matched 0 e"
  shows "closes_matched 0 (ternary_form c t e)"
    and "paren_depth 0 (ternary_form c t e) = paren_depth 0 e"
    and "\<not> top_question 0 (ternary_form c t e)"
proof -
  have dc: "paren_depth 2 c = 2" "paren_depth 3 c = 3"
    using depth_at [OF c(1), of 2] depth_at [OF c(1), of 3] c(2) by simp_all
  have dt: "paren_depth 2 t = 2"
    using depth_at [OF t(1), of 2] t(2) by simp
  have de: "paren_depth 2 e = Suc (Suc (paren_depth 0 e))"
    using depth_at [OF e, of 2] by simp
  have mc: "closes_matched 2 c" "closes_matched 3 c" and mt: "closes_matched 2 t"
    and me: "closes_matched 2 e"
    using c(1) t(1) e by (simp_all add: matched_at)
  have qc: "\<not> top_question 2 c" "\<not> top_question 3 c" and qt: "\<not> top_question 2 t"
    and qe: "\<not> top_question 2 e"
    using c(1) t(1) e by (simp_all add: no_top_question_inside)
  have two: "Suc (Suc 0) = 2" "Suc (Suc (Suc 0)) = 3" by simp_all
  show "closes_matched 0 (ternary_form c t e)"
    by (simp add: ternary_form_def closes_matched_append paren_depth_append two dc dt de mc mt me)
  show "paren_depth 0 (ternary_form c t e) = paren_depth 0 e"
    by (simp add: ternary_form_def paren_depth_append two dc dt de)
  show "\<not> top_question 0 (ternary_form c t e)"
    by (simp add: ternary_form_def top_question_append paren_depth_append two dc dt de qc qt qe)
qed

lemma rewrite_matched:
  "closes_matched 0 s \<Longrightarrow>
     closes_matched 0 (rewrite s) \<and> paren_depth 0 (rewrite s) = paren_depth 0 s"
proof (induction s rule: rewrite.induct)
  case (1 s)
  show ?case
  proof (cases "find_top_ternary s")
    case None
    with "1.prems" show ?thesis by (simp add: rewrite_not_found)
  next
    case (Some qk)
    obtain q k where qk: "qk = (q, k)" by (cases qk)
    with Some have f: "find_top_ternary s = Some (q, k)" by simp
    note parts = ternary_parts_matched [OF f "1.prems"]
    let ?c = "strip (take q s)"
    let ?t = "strip (take (k - (q + 1)) (drop (q + 1) s))"
    let ?e = "strip (drop (k + 1) s)"
    have sc: "closes_matched 0 ?c" "paren_depth 0 ?c = 0"
      using strip_matched [of "take q s"] parts(1) by simp_all
    have st: "closes_matched 0 ?t" "paren_depth 0 ?t = 0"
      using strip_matched [of "take (k - (q + 1)) (drop (q + 1) s)"] parts(2) by simp_all
    have se: "closes_matched 0 ?e" "paren_depth 0 ?e = paren_depth 0 s"
      using strip_matched [of "drop (k + 1) s"] parts(3) by simp_all
    have rc: "closes_matched 0 (rewrite ?c)" "paren_depth 0 (rewrite ?c) = 0"
      using "1.IH"(1) [OF Some qk [symmetric] sc(1)] sc(2) by simp_all
    have rt: "closes_matched 0 (rewrite ?t)" "paren_depth 0 (rewrite ?t) = 0"
      using "1.IH"(2) [OF Some qk [symmetric] st(1)] st(2) by simp_all
    have re: "closes_matched 0 (rewrite ?e)" "paren_depth 0 (rewrite ?e) = paren_depth 0 s"
      using "1.IH"(4) [OF Some qk [symmetric] se(1)] se(2) by simp_all
    from ternary_form_matched(1,2) [OF rc rt re(1)] re(2) show ?thesis
      by (simp add: rewrite_found [OF f])
  qed
qed

lemma rewrite_no_top_ternary:
  assumes "closes_matched 0 s" and f: "find_top_ternary s = Some (q, k)"
  shows "find_top_ternary (rewrite s) = None"
proof -
  note parts = ternary_parts_matched [OF f assms(1)]
  let ?c = "strip (take q s)"
  let ?t = "strip (take (k - (q + 1)) (drop (q + 1) s))"
  let ?e = "strip (drop (k + 1) s)"
  have rc: "closes_matched 0 (rewrite ?c)" "paren_depth 0 (rewrite ?c) = 0"
    using rewrite_matched [of ?c] strip_matched [of "take q s"] parts(1) by simp_all
  have rt: "closes_matched 0 (rewrite ?t)" "paren_depth 0 (rewrite ?t) = 0"
    using rewrite_matched [of ?t] strip_matched [of "take (k - (q + 1)) (drop (q + 1) s)"]
      parts(2) by simp_all
  have re: "closes_matched 0 (rewrite ?e)"
    using rewrite_matched [of ?e] strip_matched [of "drop (k + 1) s"] parts(3) by simp
  from ternary_form_matched(3) [OF rc rt re]
  have "\<not> top_question 0 (rewrite s)" by (simp add: rewrite_found [OF f])
  then show ?thesis
    unfolding find_top_ternary_def by (rule no_top_question_no_ternary)
qed

text \<open>\<open>strip\<close> leaves a string that neither begins nor ends with white space as it is.\<close>

lemma strip_fixed:
  assumes "t \<noteq> []" "\<not> isspace (hd t)" "\<not> isspace (last t)"
  shows "strip t = t"
proof -
  from assms(1,2) have l: "lstrip t = t"
    unfolding lstrip_def by (cases t) simp_all
  from assms(1) obtain xs x where t: "t = xs @ [x]"
    by (cases t rule: rev_cases) auto
  with assms(3) have "\<not> isspace x" by simp
  then have "dropWhile isspace (rev t) = rev t" by (simp add: t)
  then have "rstrip t = t" unfolding rstrip_def by simp
  with l show ?thesis unfolding strip_def by simp
qed

lemma strip_ends:
  assumes "strip s \<noteq> []"
  shows "\<not> isspace (hd (strip s))" and "\<not> isspace (last (strip s))"
proof -
  let ?u = "lstrip s"
  let ?v = "dropWhile isspace (rev ?u)"
  have sv: "strip s = rev ?v" unfolding strip_def rstrip_def by simp
  with assms have v: "?v \<noteq> []" by simp
  then have "\<not> isspace (hd ?v)" by (rule hd_dropWhile)
  moreover from v have "last (rev ?v) = hd ?v" by (simp add: last_rev)
  ultimately show "\<not> isspace (last (strip s))" using sv by simp
  from rstrip_split [of ?u] obtain ws where u: "?u = strip s @ ws"
    unfolding strip_def by blast
  with assms have "hd ?u = hd (strip s)" by (metis hd_append2)
  moreover from u assms have "?u \<noteq> []" by auto
  then have "\<not> isspace (hd ?u)" unfolding lstrip_def by (rule hd_dropWhile)
  ultimately show "\<not> isspace (hd (strip s))" by simp
qed

lemma strip_idem: "strip (strip s) = strip s"
proof (cases "strip s = []")
  case True
  have "strip [] = []" by (simp add: strip_def lstrip_def rstrip_def)
  with True show ?thesis by simp
next
  case False
  from strip_fixed [OF False strip_ends [OF False]] show ?thesis .
qed

lemma strip_ternary_form: "strip (ternary_form c t e) = ternary_form c t e"
proof (rule strip_fixed)
  show "ternary_form c t e \<noteq> []" by (simp add: ternary_form_def)
  show "\<not> isspace (hd (ternary_form c t e))" by (simp add: ternary_form_def)
  have "ternary_form c t e = (''(('' @ c @ '') & ('' @ t @ '')) | ((~('' @ c @ '')) & ('' @ e @ '')'') @ '')''"
    by (simp add: ternary_form_def)
  then have "last (ternary_form c t e) = CHR '')''" by (simp only: last_snoc)
  then show "\<not> isspace (last (ternary_form c t e))" by simp
qed

text \<open>
  Claim C10, as stated, fails on a string with unmatched closing parentheses: the first
  pass closes its own parentheses early, which brings a question mark and a colon of
  two different parts to depth 0, where the second pass rewrites them.
\<close>

theorem C10_twice_differs_counterexample:
  "rewrite_ternary_to_bool ''a?b))?x:c)):z'' = ''((a) & (b))?x)) | ((~(a)) & (c)):z))'' \<and>
   rewrite_ternary_to_bool (rewrite_ternary_to_bool ''a?b))?x:c)):z'') =
     ''((((a) & (b))) & (x)) | ((~(a)) & (c)))) | ((~(((a) & (b)))) & (z))))'' \<and>
   rewrite_ternary_to_bool (rewrite_ternary_to_bool ''a?b))?x:c)):z'') \<noteq>
     rewrite_ternary_to_bool ''a?b))?x:c)):z''"
  by code_simp

text \<open>
  Claim C10, amended.  For every expression string in which each closing parenthesis
  has its opening parenthesis before it, rewriting the ternaries twice gives the same
  string as rewriting once; the tokens, and the tree built from them, are then the same
  as well.
\<close>

theorem C10_rewrite_twice_matched:
  assumes "closes_matched 0 expr"
  shows "rewrite_ternary_to_bool (rewrite_ternary_to_bool expr) = rewrite_ternary_to_bool expr \<and>
         map_option (\<lambda>ts. rpn_to_ast (shunting_yard ts))
           (tokenize_boolean_expr (rewrite_ternary_to_bool (rewrite_ternary_to_bool expr))) =
         map_option (\<lambda>ts. rpn_to_ast (shunting_yard ts))
           (tokenize_boolean_expr (rewrite_ternary_to_bool expr))"
proof -
  let ?e = "strip expr"
  have m: "closes_matched 0 ?e" using strip_matched [OF assms] by simp
  have idem: "rewrite_ternary_to_bool (rewrite_ternary_to_bool expr) = rewrite_ternary_to_bool expr"
  proof (cases "CHR ''?'' \<in> set ?e")
    case False
    then show ?thesis by (simp add: rewrite_ternary_to_bool_def strip_idem Let_def)
  next
    case True
    then have r1: "rewrite_ternary_to_bool expr = rewrite ?e"
      by (simp add: rewrite_ternary_to_bool_def Let_def)
    show ?thesis
    proof (cases "find_top_ternary ?e")
      case None
      then have "rewrite ?e = ?e" by (rule rewrite_not_found)
      with True show ?thesis by (simp add: rewrite_ternary_to_bool_def strip_idem Let_def)
    next
      case (Some qk)
      obtain q k where "qk = (q, k)" by (cases qk)
      with Some have f: "find_top_ternary ?e = Some (q, k)" by simp
      have s: "strip (rewrite ?e) = rewrite ?e"
        by (simp add: rewrite_found [OF f] strip_ternary_form)
      have "rewrite (rewrite ?e) = rewrite ?e"
        using rewrite_no_top_ternary [OF m f] by (rule rewrite_not_found)
      then have "rewrite_ternary_to_bool (rewrite ?e) = rewrite ?e"
        by (simp add: rewrite_ternary_to_bool_def s Let_def)
      with r1 show ?thesis by simp
    qed
  qed
  then show ?thesis by simp
qed

theorem C10_rewrite_twice_witness:
  "closes_matched 0 ''(s1 ? a : b) ? c : d'' \<and>
   rewrite_ternary_to_bool (rewrite_ternary_to_bool ''(s1 ? a : b) ? c : d'') =
     rewrite_ternary_to_bool ''(s1 ? a : b) ? c : d'' \<and>
   rewrite_ternary_to_bool ''(s1 ? a : b) ? c : d'' =
     ''(((s1 ? a : b)) & (c)) | ((~((s1 ? a : b))) & (d))''"
proof -
  have h: "closes_matched 0 ''(s1 ? a : b) ? c : d''" by simp
  have v: "rewrite_ternary_to_bool ''(s1 ? a : b) ? c : d'' =
     ''(((s1 ? a : b)) & (c)) | ((~((s1 ? a : b))) & (d))''" by code_simp
  from C10_rewrite_twice_matched [OF h] h v show ?thesis by blast
qed

section \<open>How many ICs the packer allocates\<close>

text \<open>The number of packages of capacity \<open>c\<close> that \<open>n\<close> gates need, rounded up.\<close>

definition ceil_div :: "nat \<Rightarrow> nat \<Rightarrow> nat" where
  "ceil_div n c = (if n mod c = 0 then n div c else n div c + 1)"

lemma range_count_ceil: "0 < c \<Longrightarrow> (n + c - 1) div c = ceil_div n c"
proof -
  assume c: "0 < c"
  have n: "n = c * (n div c) + n mod c" by simp
  show ?thesis
  proof (cases "n mod c = 0")
    case True
    then obtain k where k: "n = c * k" by auto
    have "(c * k + c - 1) div c = k"
    proof -
      have "c * k + c - 1 = (c - 1) + k * c" using c by (simp add: mult.commute)
      also have "\<dots> div c = (c - 1) div c + k" using c by (simp only: div_mult_self1) 
      also have "\<dots> = k" using c by simp
      finally show ?thesis .
    qed
    with True k c show ?thesis by (simp add: ceil_div_def)
  next
    case False
    define r where "r = n mod c"
    define k where "k = n div c"
    from False have r: "0 < r" "r < c" using c by (simp_all add: r_def)
    have nk: "n = r + k * c" using n by (simp add: r_def k_def mult.commute)
    have "n + c - 1 = (r - 1) + (k + 1) * c" using r nk by simp
    also have "\<dots> div c = (r - 1) div c + (k + 1)" using c by (simp only: div_mult_self1)
    also have "\<dots> = k + 1" using r by simp
    finally show ?thesis using False by (simp add: ceil_div_def k_def)
  qed
qed

text \<open>The list a \<open>defaultdict(list)\<close> holds under a key.\<close>

definition lookup_list :: "(string \<times> gate list) list \<Rightarrow> string \<Rightarrow> gate list" where
  "lookup_list d t = (case map_of d t of None \<Rightarrow> [] | Some gs \<Rightarrow> gs)"

lemma key_in_keys: "(k, v) \<in> set d \<Longrightarrow> k \<in> fst ` set d"
  by force

lemma dict_append_keys:
  "map fst (dict_append d k g) = (if k \<in> set (map fst d) then map fst d else map fst d @ [k])"
  by (induction d) (auto dest: key_in_keys)

lemma dict_append_distinct: "distinct (map fst d) \<Longrightarrow> distinct (map fst (dict_append d k g))"
  by (simp add: dict_append_keys)

lemma dict_append_lookup:
  "lookup_list (dict_append d k g) t = (if t = k then lookup_list d k @ [g] else lookup_list d t)"
  by (induction d) (auto simp: lookup_list_def)

lemma group_gates_result:
  assumes "\<forall>g\<in>set gates. gate_type g = ''ALIAS'' \<longrightarrow> inputs g \<noteq> []"
  shows "\<exists>gc' links'. group_gates gates gc links = Inr (gc', links') \<and>
     (distinct (map fst gc) \<longrightarrow> distinct (map fst gc')) \<and>
     (\<forall>t. lookup_list gc' t =
        lookup_list gc t @ filter (\<lambda>g. gate_type g = t \<and> t \<noteq> ''ALIAS'') gates) \<and>
     ((links' \<noteq> []) = (links \<noteq> [] \<or> (\<exists>g\<in>set gates. gate_type g = ''ALIAS'')))"
  using assms
proof (induction gates arbitrary: gc links)
  case Nil
  show ?case by simp
next
  case (Cons g gates)
  from Cons.prems have rest: "\<forall>g\<in>set gates. gate_type g = ''ALIAS'' \<longrightarrow> inputs g \<noteq> []"
    by simp
  show ?case
  proof (cases "gate_type g = ''ALIAS''")
    case True
    with Cons.prems obtain s ss where s: "inputs g = s # ss" by (cases "inputs g") auto
    from Cons.IH [OF rest, of gc "links @ [(output_net g, s)]"] True s
    show ?thesis by auto
  next
    case False
    from Cons.IH [OF rest, of "dict_append gc (gate_type g) g" links]
    obtain gc' links' where
      r: "group_gates gates (dict_append gc (gate_type g) g) links = Inr (gc', links')"
      and d: "distinct (map fst (dict_append gc (gate_type g) g)) \<longrightarrow> distinct (map fst gc')"
      and l: "\<forall>t. lookup_list gc' t =
          lookup_list (dict_append gc (gate_type g) g) t @
          filter (\<lambda>g. gate_type g = t \<and> t \<noteq> ''ALIAS'') gates"
      and k: "(links' \<noteq> []) = (links \<noteq> [] \<or> (\<exists>g\<in>set gates. gate_type g = ''ALIAS''))"
      by blast
    have "group_gates (g # gates) gc links = Inr (gc', links')"
      using False r by simp
    moreover have "distinct (map fst gc) \<longrightarrow> distinct (map fst gc')"
      using d dict_append_distinct by blast
    moreover have "\<forall>t. lookup_list gc' t =
        lookup_list gc t @ filter (\<lambda>g. gate_type g = t \<and> t \<noteq> ''ALIAS'') (g # gates)"
      using l False by (auto simp: dict_append_lookup)
    moreover have "(links' \<noteq> []) = (links \<noteq> [] \<or> (\<exists>g\<in>set (g # gates). gate_type g = ''ALIAS''))"
      using k False by simp
    ultimately show ?thesis by blast
  qed
qed

lemma ic_mappings_facts:
  assumes "ic_mappings t = Some m"
  shows "gates_per_ic m = length (slots m)" and "0 < gates_per_ic m"
    and "m_part_number m \<noteq> ''ALIAS''" and "t \<noteq> ''ALIAS''"
  using assms
  by (auto simp: ic_mappings_def two_input_slots_def split: if_splits)

lemma ic_mappings_part_inj:
  assumes "ic_mappings t = Some m" "ic_mappings t' = Some m'"
    and "m_part_number m = m_part_number m'"
  shows "t = t'"
proof -
  from assms(1) have a: "(t, m_part_number m) \<in> {(''AND'', ''74HC08''), (''OR'', ''74HC32''),
      (''XOR'', ''74HC86''), (''NOT'', ''74HC04''), (''DFF'', ''74HC74'')}"
    by (auto simp: ic_mappings_def split: if_splits)
  from assms(2) have b: "(t', m_part_number m') \<in> {(''AND'', ''74HC08''), (''OR'', ''74HC32''),
      (''XOR'', ''74HC86''), (''NOT'', ''74HC04''), (''DFF'', ''74HC74'')}"
    by (auto simp: ic_mappings_def split: if_splits)
  from a b assms(3) show ?thesis by auto
qed

lemma place_gates_ok:
  "i + length gs \<le> length (slots m) \<Longrightarrow>
   \<exists>ic'. place_gates m i gs ic = Inr ic' \<and> part_number ic' = part_number ic"
proof (induction gs arbitrary: i ic)
  case Nil
  show ?case by simp
next
  case (Cons g gs)
  then have i: "i < length (slots m)" and r: "(i + 1) + length gs \<le> length (slots m)"
    by simp_all
  obtain in_pins out_pin where sl: "slots m ! i = (in_pins, out_pin)"
    by (cases "slots m ! i")
  let ?ic = "ic\<lparr>pin_assignments :=
                dict_set (assign_inputs in_pins (inputs g) (pin_assignments ic))
                  out_pin (output_net g),
              ic_gates := ic_gates ic @ [g]\<rparr>"
  from Cons.IH [OF r, of ?ic] obtain ic' where
    "place_gates m (i + 1) gs ?ic = Inr ic'" "part_number ic' = part_number ic"
    by auto
  with i sl show ?case by simp
qed

lemma make_ic_ok:
  assumes "gates_per_ic m \<le> length (slots m)"
  shows "\<exists>ic. make_ic m gate_list ic_num n = Inr ic \<and> part_number ic = m_part_number m"
proof -
  let ?start = "ic_num * gates_per_ic m"
  let ?end = "min (?start + gates_per_ic m) (length gate_list)"
  let ?gs = "take (?end - ?start) (drop ?start gate_list)"
  let ?ic0 = "\<lparr>part_number = m_part_number m, package = m_package m,
               instance_id = ''U'' @ str_nat (n + 1), ic_gates = [],
               pin_assignments = []\<rparr>"
  have "length ?gs \<le> gates_per_ic m" by (auto simp: min_def)
  with assms have "0 + length ?gs \<le> length (slots m)" by simp
  from place_gates_ok [OF this, of ?ic0] obtain ic' where
    "place_gates m 0 ?gs ?ic0 = Inr ic'" "part_number ic' = m_part_number m"
    by auto
  then show ?thesis by (simp add: make_ic_def Let_def)
qed

lemma make_ics_ok:
  assumes "gates_per_ic m \<le> length (slots m)"
  shows "\<exists>new. make_ics m gate_list nums ics = Inr (ics @ new) \<and> length new = length nums \<and>
           (\<forall>ic\<in>set new. part_number ic = m_part_number m)"
proof (induction nums arbitrary: ics)
  case Nil
  show ?case by simp
next
  case (Cons ic_num nums)
  from make_ic_ok [OF assms, of gate_list ic_num "length ics"] obtain ic where
    ic: "make_ic m gate_list ic_num (length ics) = Inr ic" "part_number ic = m_part_number m"
    by blast
  from Cons.IH [of "ics @ [ic]"] obtain new where
    new: "make_ics m gate_list nums (ics @ [ic]) = Inr ((ics @ [ic]) @ new)"
      "length new = length nums" "\<forall>ic\<in>set new. part_number ic = m_part_number m"
    by blast
  show ?case
  proof (intro exI conjI)
    show "make_ics m gate_list (ic_num # nums) ics = Inr (ics @ (ic # new))"
      using ic(1) new(1) by simp
    show "length (ic # new) = length (ic_num # nums)" using new(2) by simp
    show "\<forall>ic\<in>set (ic # new). part_number ic = m_part_number m" using ic(2) new(3) by simp
  qed
qed

text \<open>The ICs of one part number, counted.\<close>

definition count_part :: "string \<Rightarrow> ic_instance list \<Rightarrow> nat" where
  "count_part p ics = length (filter (\<lambda>ic. part_number ic = p) ics)"

lemma count_part_append: "count_part p (xs @ ys) = count_part p xs + count_part p ys"
  by (simp add: count_part_def)

lemma count_part_same: "\<forall>ic\<in>set xs. part_number ic = p \<Longrightarrow> count_part p xs = length xs"
  by (simp add: count_part_def)

lemma count_part_other:
  "\<forall>ic\<in>set xs. part_number ic = p' \<Longrightarrow> p' \<noteq> p \<Longrightarrow> count_part p xs = 0"
  by (simp add: count_part_def)

lemma lookup_list_Cons:
  "lookup_list ((t', gl) # groups) t = (if t = t' then gl else lookup_list groups t)"
  by (simp add: lookup_list_def)

lemma lookup_list_absent: "t \<notin> set (map fst groups) \<Longrightarrow> lookup_list groups t = []"
  by (induction groups) (auto simp: lookup_list_def)

lemma create_ics_count:
  assumes "distinct (map fst groups)"
  shows "\<exists>new. create_ics groups ics = Inr (ics @ new) \<and>
     (\<forall>ic\<in>set new. \<exists>t m. ic_mappings t = Some m \<and> part_number ic = m_part_number m) \<and>
     (\<forall>t m. ic_mappings t = Some m \<longrightarrow>
        count_part (m_part_number m) new =
          ceil_div (length (lookup_list groups t)) (gates_per_ic m))"
  using assms
proof (induction groups arbitrary: ics)
  case Nil
  show ?case by (simp add: count_part_def lookup_list_def ceil_div_def)
next
  case (Cons grp groups)
  obtain t' gl where grp: "grp = (t', gl)" by (cases grp)
  from Cons.prems have d: "distinct (map fst groups)" and nt: "t' \<notin> set (map fst groups)"
    by (simp_all add: grp)
  show ?case
  proof (cases "ic_mappings t'")
    case None
    from Cons.IH [OF d, of ics] obtain new where
      new: "create_ics groups ics = Inr (ics @ new)"
        "\<forall>ic\<in>set new. \<exists>t m. ic_mappings t = Some m \<and> part_number ic = m_part_number m"
        "\<forall>t m. ic_mappings t = Some m \<longrightarrow>
           count_part (m_part_number m) new =
             ceil_div (length (lookup_list groups t)) (gates_per_ic m)"
      by blast
    have "\<forall>t m. ic_mappings t = Some m \<longrightarrow>
        count_part (m_part_number m) new =
          ceil_div (length (lookup_list (grp # groups) t)) (gates_per_ic m)"
      using new(3) None by (auto simp: grp lookup_list_Cons)
    with new(1,2) None show ?thesis by (auto simp: grp)
  next
    case (Some m')
    note f = ic_mappings_facts [OF Some]
    let ?n = "(length gl + gates_per_ic m' - 1) div gates_per_ic m'"
    from f(1) have "gates_per_ic m' \<le> length (slots m')" by simp
    from make_ics_ok [OF this, of gl "[0..<?n]" ics] obtain mine where
      mine: "make_ics m' gl [0..<?n] ics = Inr (ics @ mine)" "length mine = ?n"
        "\<forall>ic\<in>set mine. part_number ic = m_part_number m'"
      by auto
    from Cons.IH [OF d, of "ics @ mine"] obtain new where
      new: "create_ics groups (ics @ mine) = Inr ((ics @ mine) @ new)"
        "\<forall>ic\<in>set new. \<exists>t m. ic_mappings t = Some m \<and> part_number ic = m_part_number m"
        "\<forall>t m. ic_mappings t = Some m \<longrightarrow>
           count_part (m_part_number m) new =
             ceil_div (length (lookup_list groups t)) (gates_per_ic m)"
      by blast
    have n: "?n = ceil_div (length gl) (gates_per_ic m')"
      using f(2) by (rule range_count_ceil)
    have run: "create_ics (grp # groups) ics = Inr (ics @ (mine @ new))"
      using Some mine(1) new(1) by (simp add: grp)
    have parts: "\<forall>ic\<in>set (mine @ new). \<exists>t m. ic_mappings t = Some m \<and>
        part_number ic = m_part_number m"
      using mine(3) new(2) Some by auto
    have count: "count_part (m_part_number m) (mine @ new) =
        ceil_div (length (lookup_list (grp # groups) t)) (gates_per_ic m)"
      if tm: "ic_mappings t = Some m" for t m
    proof (cases "t = t'")
      case True
      with tm Some have m: "m = m'" by simp
      from nt have "lookup_list groups t' = []" by (rule lookup_list_absent)
      with new(3) Some have "count_part (m_part_number m') new = 0"
        by (simp add: ceil_div_def)
      moreover have "count_part (m_part_number m') mine = length mine"
        using mine(3) by (rule count_part_same)
      ultimately show ?thesis
        using True m mine(2) n by (simp add: count_part_append grp lookup_list_Cons)
    next
      case False
      have "m_part_number m' \<noteq> m_part_number m"
        using ic_mappings_part_inj [OF tm Some] False by auto
      with mine(3) have "count_part (m_part_number m) mine = 0"
        by (rule count_part_other)
      with new(3) tm False show ?thesis
        by (simp add: count_part_append grp lookup_list_Cons)
    qed
    from run parts count show ?thesis by blast
  qed
qed

lemma alias_ic_part: "part_number (alias_ic links) = ''ALIAS''"
  by (simp add: alias_ic_def)

text \<open>
  Claim C5.  For every gate list whose ALIAS gates have an input (as every gate list of
  the parser and flattener has), the packer returns, and for each kind of the catalog
  the number of ICs of its part number is the number of gates of the kind divided by
  the capacity, rounded up: capacity 4 for AND (74HC08), OR (74HC32) and XOR (74HC86),
  6 for NOT (74HC04), 2 for DFF (74HC74).  ALIAS has no catalog entry and allocates
  no real IC: every IC returned is of a catalog part or is the one alias pseudo-IC,
  which is present exactly when the list has an ALIAS gate.
\<close>

theorem C5_ics_per_kind:
  assumes "\<forall>g\<in>set gates. gate_type g = ''ALIAS'' \<longrightarrow> inputs g \<noteq> []"
  shows "\<exists>ics. map_gates_to_ics gates = Inr ics \<and>
     (\<forall>t m. ic_mappings t = Some m \<longrightarrow>
        count_part (m_part_number m) ics =
          ceil_div (length (filter (\<lambda>g. gate_type g = t) gates)) (gates_per_ic m)) \<and>
     (\<forall>ic\<in>set ics. part_number ic = ''ALIAS'' \<or>
        (\<exists>t m. ic_mappings t = Some m \<and> part_number ic = m_part_number m)) \<and>
     count_part ''ALIAS'' ics = (if \<exists>g\<in>set gates. gate_type g = ''ALIAS'' then 1 else 0) \<and>
     map (\<lambda>t. map_option (\<lambda>m. (m_part_number m, gates_per_ic m)) (ic_mappings t))
         [''AND'', ''OR'', ''XOR'', ''NOT'', ''DFF'', ''ALIAS''] =
       [Some (''74HC08'', 4), Some (''74HC32'', 4), Some (''74HC86'', 4),
        Some (''74HC04'', 6), Some (''74HC74'', 2), None]"
proof -
  from group_gates_result [OF assms, of "[]" "[]"] obtain gc links where
    g: "group_gates gates [] [] = Inr (gc, links)" and d: "distinct (map fst gc)"
    and l: "\<forall>t. lookup_list gc t = filter (\<lambda>g. gate_type g = t \<and> t \<noteq> ''ALIAS'') gates"
    and k: "(links \<noteq> []) = (\<exists>g\<in>set gates. gate_type g = ''ALIAS'')"
    by (auto simp: lookup_list_def)
  from create_ics_count [OF d, of "[]"] obtain new where
    c: "create_ics gc [] = Inr new"
    and p: "\<forall>ic\<in>set new. \<exists>t m. ic_mappings t = Some m \<and> part_number ic = m_part_number m"
    and n: "\<forall>t m. ic_mappings t = Some m \<longrightarrow>
        count_part (m_part_number m) new = ceil_div (length (lookup_list gc t)) (gates_per_ic m)"
    by auto
  let ?ics = "if links \<noteq> [] then new @ [alias_ic links] else new"
  have run: "map_gates_to_ics gates = Inr ?ics"
    by (simp add: map_gates_to_ics_def g c)
  have cnt: "count_part (m_part_number m) ?ics =
      ceil_div (length (filter (\<lambda>g. gate_type g = t) gates)) (gates_per_ic m)"
    if tm: "ic_mappings t = Some m" for t m
  proof -
    note f = ic_mappings_facts [OF tm]
    from l f(4) have "lookup_list gc t = filter (\<lambda>g. gate_type g = t) gates" by simp
    with n tm have "count_part (m_part_number m) new =
        ceil_div (length (filter (\<lambda>g. gate_type g = t) gates)) (gates_per_ic m)"
      by simp
    moreover have "count_part (m_part_number m) [alias_ic links] = 0"
      using f(3) by (simp add: count_part_def alias_ic_part)
    ultimately show ?thesis by (simp add: count_part_append)
  qed
  have parts: "\<forall>ic\<in>set ?ics. part_number ic = ''ALIAS'' \<or>
      (\<exists>t m. ic_mappings t = Some m \<and> part_number ic = m_part_number m)"
    using p by (auto simp: alias_ic_part)
  have "\<forall>ic\<in>set new. part_number ic \<noteq> ''ALIAS''"
    using p ic_mappings_facts(3) by metis
  then have "count_part ''ALIAS'' new = 0"
    by (simp add: count_part_def)
  then have al: "count_part ''ALIAS'' ?ics = (if \<exists>g\<in>set gates. gate_type g = ''ALIAS'' then 1 else 0)"
    using k by (simp add: count_part_append) (simp add: count_part_def alias_ic_part)
  have cat: "map (\<lambda>t. map_option (\<lambda>m. (m_part_number m, gates_per_ic m)) (ic_mappings t))
         [''AND'', ''OR'', ''XOR'', ''NOT'', ''DFF'', ''ALIAS''] =
       [Some (''74HC08'', 4), Some (''74HC32'', 4), Some (''74HC86'', 4),
        Some (''74HC04'', 6), Some (''74HC74'', 2), None]"
    by (simp add: ic_mappings_def)
  show ?thesis
  proof (intro exI conjI allI impI)
    show "map_gates_to_ics gates = Inr ?ics" by (rule run)
    show "count_part (m_part_number m) ?ics =
        ceil_div (length (filter (\<lambda>g. gate_type g = t) gates)) (gates_per_ic m)"
      if "ic_mappings t = Some m" for t m
      using that by (rule cnt)
  qed (rule parts, rule al, rule cat)
qed

theorem C5_ics_per_kind_witness:
  "\<exists>ics. map_gates_to_ics
       [\<lparr>gate_type = ''AND'', inputs = [''a'', ''b''], output_net = ''y1'', instance_name = []\<rparr>,
        \<lparr>gate_type = ''AND'', inputs = [''a'', ''c''], output_net = ''y2'', instance_name = []\<rparr>,
        \<lparr>gate_type = ''ALIAS'', inputs = [''y1''], output_net = ''z'', instance_name = []\<rparr>,
        \<lparr>gate_type = ''AND'', inputs = [''a'', ''d''], output_net = ''y3'', instance_name = []\<rparr>,
        \<lparr>gate_type = ''AND'', inputs = [''a'', ''e''], output_net = ''y4'', instance_name = []\<rparr>,
        \<lparr>gate_type = ''AND'', inputs = [''a'', ''f''], output_net = ''y5'', instance_name = []\<rparr>]
       = Inr ics \<and>
     count_part ''74HC08'' ics = 2 \<and> count_part ''74HC04'' ics = 0 \<and>
     count_part ''ALIAS'' ics = 1"
proof -
  let ?gates = "[\<lparr>gate_type = ''AND'', inputs = [''a'', ''b''], output_net = ''y1'', instance_name = []\<rparr>,
        \<lparr>gate_type = ''AND'', inputs = [''a'', ''c''], output_net = ''y2'', instance_name = []\<rparr>,
        \<lparr>gate_type = ''ALIAS'', inputs = [''y1''], output_net = ''z'', instance_name = []\<rparr>,
        \<lparr>gate_type = ''AND'', inputs = [''a'', ''d''], output_net = ''y3'', instance_name = []\<rparr>,
        \<lparr>gate_type = ''AND'', inputs = [''a'', ''e''], output_net = ''y4'', instance_name = []\<rparr>,
        \<lparr>gate_type = ''AND'', inputs = [''a'', ''f''], output_net = ''y5'', instance_name = []\<rparr>]"
  have h: "\<forall>g\<in>set ?gates. gate_type g = ''ALIAS'' \<longrightarrow> inputs g \<noteq> []" by simp
  from C5_ics_per_kind [OF h] obtain ics where
    r: "map_gates_to_ics ?gates = Inr ics"
    and c: "\<And>t m. ic_mappings t = Some m \<Longrightarrow>
        count_part (m_part_number m) ics =
          ceil_div (length (filter (\<lambda>g. gate_type g = t) ?gates)) (gates_per_ic m)"
    and a: "count_part ''ALIAS'' ics =
        (if \<exists>g\<in>set ?gates. gate_type g = ''ALIAS'' then 1 else 0)"
    by blast
  have m1: "ic_mappings ''AND'' =
      Some \<lparr>m_part_number = ''74HC08'', m_package = ''DIP-14'', gates_per_ic = 4,
            slots = two_input_slots, vcc = ''14'', gnd = ''7''\<rparr>"
    by (simp add: ic_mappings_def)
  have m2: "ic_mappings ''NOT'' =
      Some \<lparr>m_part_number = ''74HC04'', m_package = ''DIP-14'', gates_per_ic = 6,
              slots = [([''1''], ''2''), ([''3''], ''4''), ([''5''], ''6''),
                       ([''9''], ''8''), ([''11''], ''10''), ([''13''], ''12'')],
              vcc = ''14'', gnd = ''7''\<rparr>"
    by (simp add: ic_mappings_def)
  have "count_part ''74HC08'' ics = 2" using c [OF m1] by (simp add: ceil_div_def)
  moreover have "count_part ''74HC04'' ics = 0" using c [OF m2] by (simp add: ceil_div_def)
  moreover have "count_part ''ALIAS'' ics = 1" using a by simp
  ultimately show ?thesis using r by blast
qed

section \<open>Hierarchy flattener\<close>

text \<open>
  The dataclasses \<open>Signal\<close>, \<open>ModuleInstance\<close> and \<open>Module\<close>.  A field named like a
  field of another record carries a prefix: \<open>sig_name\<close>, \<open>sig_width\<close> for
  \<open>Signal.name\<close>, \<open>Signal.width\<close>; \<open>inst_module\<close>, \<open>inst_name\<close> for \<open>ModuleInstance.module_name\<close>, \<open>.instance_name\<close>;
  \<open>mod_name\<close>, \<open>mod_inputs\<close>, \<open>mod_outputs\<close>, \<open>mod_gates\<close>, \<open>mod_instances\<close> for the fields
  of \<open>Module\<close>.  \<open>Module.submodules\<close> is never written or read and is left out.  The
  dictionary \<open>connections\<close> and the module table are only looked up by key, so they are
  maps.
\<close>

record signal =
  sig_name :: string
  sig_width :: int
  is_input :: bool
  is_output :: bool
  is_internal :: bool
  is_wire :: bool

record module_instance =
  inst_module :: string
  inst_name :: string
  connections :: "string \<rightharpoonup> string"

record module =
  mod_name :: string
  mod_inputs :: "signal list"
  mod_outputs :: "signal list"
  internal_signals :: "signal list"
  mod_gates :: "gate list"
  mod_instances :: "module_instance list"

text \<open>\<open>sanitize_signal_name\<close>: strip, then \<open>[\<close> to \<open>_\<close>, \<open>]\<close> removed, \<open>:\<close> to \<open>_\<close>.\<close>

definition sanitize_signal_name :: "string \<Rightarrow> string" where
  "sanitize_signal_name name =
     map (\<lambda>c. if c = CHR '':'' then CHR ''_'' else c)
       (filter (\<lambda>c. c \<noteq> CHR '']'')
         (map (\<lambda>c. if c = CHR ''['' then CHR ''_'' else c) (strip name)))"

text \<open>The copy of a local gate, with its nets sanitized.\<close>

definition sanitize_gate :: "gate \<Rightarrow> gate" where
  "sanitize_gate g =
     \<lparr>gate_type = gate_type g, inputs = map sanitize_signal_name (inputs g),
      output_net = sanitize_signal_name (output_net g), instance_name = instance_name g\<rparr>"

text \<open>
  \<open>port_map\<close>: the connections of the instance, each actual net sanitized.  A net of a
  submodule gate that is a key of \<open>port_map\<close> is replaced by the mapped net; any other
  net gets the instance name as a prefix.
\<close>

definition port_map :: "module_instance \<Rightarrow> string \<rightharpoonup> string" where
  "port_map inst = (\<lambda>k. map_option sanitize_signal_name (connections inst k))"

definition map_net :: "module_instance \<Rightarrow> string \<Rightarrow> string" where
  "map_net inst base =
     (case port_map inst base of
        Some net \<Rightarrow> net
      | None \<Rightarrow> inst_name inst @ ''_'' @ base)"

definition inline_gate :: "module_instance \<Rightarrow> gate \<Rightarrow> gate" where
  "inline_gate inst g =
     \<lparr>gate_type = gate_type g, inputs = map (map_net inst) (inputs g),
      output_net = map_net inst (output_net g),
      instance_name = inst_name inst @ ''_'' @ instance_name g\<rparr>"

text \<open>
  The virtual primitive \<open>UNIT_DFFE\<close>: the ports \<open>D\<close>, \<open>CLK\<close>, \<open>Q\<close>, or their lower-case
  names when the upper-case one is not connected; a DFF gate when all three are
  connected, nothing otherwise.
\<close>

definition unit_dffe_gates :: "module_instance \<Rightarrow> gate list" where
  "unit_dffe_gates inst =
     (let conn = connections inst;
          d_port = (if conn ''D'' \<noteq> None then ''D'' else ''d'');
          clk_port = (if conn ''CLK'' \<noteq> None then ''CLK'' else ''clk'');
          q_port = (if conn ''Q'' \<noteq> None then ''Q'' else ''q'')
      in case (conn d_port, conn clk_port, conn q_port) of
           (Some d, Some clk, Some q) \<Rightarrow>
             [\<lparr>gate_type = ''DFF'',
               inputs = [sanitize_signal_name d, sanitize_signal_name clk],
               output_net = sanitize_signal_name q,
               instance_name = inst_name inst @ ''_DFF''\<rparr>]
         | _ \<Rightarrow> [])"

text \<open>
  \<open>flatten_module_gates(module, modules)\<close>.  The function calls itself for every
  instantiated submodule; on a module table with a cycle Python reaches its recursion
  limit and raises \<open>RecursionError\<close>.  The first argument is the number of nested calls
  still allowed.  \<open>inline_instances\<close> is the loop over \<open>module.instances\<close>, with the
  list \<open>flat\<close> built so far.
\<close>

fun flatten_module_gates :: "nat \<Rightarrow> module \<Rightarrow> (string \<rightharpoonup> module) \<Rightarrow> py_error + gate list"
  and inline_instances ::
    "nat \<Rightarrow> module_instance list \<Rightarrow> (string \<rightharpoonup> module) \<Rightarrow> gate list \<Rightarrow> py_error + gate list"
where
  "flatten_module_gates 0 m modules = Inl RecursionError"
| "flatten_module_gates (Suc depth) m modules =
     inline_instances depth (mod_instances m) modules
       (if mod_instances m = [] then map sanitize_gate (mod_gates m) else [])"
| "inline_instances depth [] modules flat = Inr flat"
| "inline_instances depth (inst # rest) modules flat =
     (if inst_module inst = ''UNIT_DFFE'' then
        inline_instances depth rest modules (flat @ unit_dffe_gates inst)
      else (case modules (inst_module inst) of
              None \<Rightarrow> inline_instances depth rest modules flat
            | Some sub \<Rightarrow>
                (case flatten_module_gates depth sub modules of
                   Inl e \<Rightarrow> Inl e
                 | Inr sub_gates \<Rightarrow>
                     inline_instances depth rest modules
                       (flat @ map (inline_gate inst) sub_gates))))"

text \<open>The list built so far is only extended.\<close>

lemma inline_instances_acc:
  "inline_instances depth insts modules flat =
     (case inline_instances depth insts modules [] of
        Inl e \<Rightarrow> Inl e
      | Inr new \<Rightarrow> Inr (flat @ new))"
proof (induction insts arbitrary: flat)
  case Nil
  show ?case by simp
next
  case (Cons inst rest)
  have step: "inline_instances depth rest modules (flat @ add) =
      (case inline_instances depth rest modules add of
         Inl e \<Rightarrow> Inl e
       | Inr new \<Rightarrow> Inr (flat @ new))" for add
  proof -
    have "inline_instances depth rest modules (flat @ add) =
        (case inline_instances depth rest modules [] of
           Inl e \<Rightarrow> Inl e
         | Inr new \<Rightarrow> Inr ((flat @ add) @ new))"
      by (rule Cons.IH)
    moreover have "inline_instances depth rest modules add =
        (case inline_instances depth rest modules [] of
           Inl e \<Rightarrow> Inl e
         | Inr new \<Rightarrow> Inr (add @ new))"
      by (rule Cons.IH)
    ultimately show ?thesis by (simp split: sum.splits)
  qed
  show ?case
  proof (cases "inst_module inst = ''UNIT_DFFE''")
    case True
    with step [of "unit_dffe_gates inst"] show ?thesis by simp
  next
    case False
    show ?thesis
    proof (cases "modules (inst_module inst)")
      case None
      with False step [of "[]"] show ?thesis by simp
    next
      case (Some sub)
      show ?thesis
      proof (cases "flatten_module_gates depth sub modules")
        case (Inl e)
        with False Some show ?thesis by simp
      next
        case (Inr sub_gates)
        with False Some step [of "map (inline_gate inst) sub_gates"] show ?thesis by simp
      qed
    qed
  qed
qed

text \<open>Two modules for the examples: a double inverter, and a module that instantiates it.\<close>

definition example_sub :: module where
  "example_sub =
     \<lparr>mod_name = ''inv2'',
      mod_inputs = [\<lparr>sig_name = ''a'', sig_width = 1, is_input = True, is_output = False,
                     is_internal = False, is_wire = False\<rparr>],
      mod_outputs = [\<lparr>sig_name = ''y'', sig_width = 1, is_input = False, is_output = True,
                      is_internal = False, is_wire = False\<rparr>],
      internal_signals = [\<lparr>sig_name = ''w'', sig_width = 1, is_input = False,
                           is_output = False, is_internal = True, is_wire = True\<rparr>],
      mod_gates = [\<lparr>gate_type = ''NOT'', inputs = [''a''], output_net = ''w'',
                     instance_name = ''NOT_1_w''\<rparr>,
                   \<lparr>gate_type = ''NOT'', inputs = [''w''], output_net = ''y'',
                     instance_name = ''NOT_1_y''\<rparr>],
      mod_instances = []\<rparr>"

definition example_inst :: module_instance where
  "example_inst =
     \<lparr>inst_module = ''inv2'', inst_name = ''u1'',
      connections = [''a'' \<mapsto> ''x[0]'', ''w'' \<mapsto> ''probe'']\<rparr>"

definition example_top :: module where
  "example_top =
     \<lparr>mod_name = ''top'',
      mod_inputs = [\<lparr>sig_name = ''x'', sig_width = 1, is_input = True, is_output = False,
                     is_internal = False, is_wire = False\<rparr>],
      mod_outputs = [\<lparr>sig_name = ''probe'', sig_width = 1, is_input = False,
                      is_output = True, is_internal = False, is_wire = False\<rparr>],
      internal_signals = [],
      mod_gates = [\<lparr>gate_type = ''AND'', inputs = [''x'', ''x''], output_net = ''z'',
                     instance_name = ''AND_2_z''\<rparr>],
      mod_instances = [example_inst]\<rparr>"

lemma sanitize_examples:
  "sanitize_signal_name ''x[0]'' = ''x_0''" "sanitize_signal_name ''probe'' = ''probe''"
  "sanitize_signal_name ''a'' = ''a''" "sanitize_signal_name ''w'' = ''w''"
  "sanitize_signal_name ''y'' = ''y''"
  by code_simp+

lemma example_sub_flat:
  "flatten_module_gates (Suc depth) example_sub modules =
     Inr [\<lparr>gate_type = ''NOT'', inputs = [''a''], output_net = ''w'',
            instance_name = ''NOT_1_w''\<rparr>,
          \<lparr>gate_type = ''NOT'', inputs = [''w''], output_net = ''y'',
            instance_name = ''NOT_1_y''\<rparr>]"
  by (simp add: example_sub_def sanitize_gate_def sanitize_examples)

lemma example_top_flat:
  "flatten_module_gates (Suc (Suc depth)) example_top [''inv2'' \<mapsto> example_sub] =
     Inr [\<lparr>gate_type = ''NOT'', inputs = [''x_0''], output_net = ''probe'',
            instance_name = ''u1_NOT_1_w''\<rparr>,
          \<lparr>gate_type = ''NOT'', inputs = [''probe''], output_net = ''u1_y'',
            instance_name = ''u1_NOT_1_y''\<rparr>]"
proof -
  have "flatten_module_gates (Suc (Suc depth)) example_top [''inv2'' \<mapsto> example_sub] =
      inline_instances (Suc depth) [example_inst] [''inv2'' \<mapsto> example_sub] []"
    by (simp add: example_top_def)
  also have "\<dots> =
     Inr [\<lparr>gate_type = ''NOT'', inputs = [''x_0''], output_net = ''probe'',
            instance_name = ''u1_NOT_1_w''\<rparr>,
          \<lparr>gate_type = ''NOT'', inputs = [''probe''], output_net = ''u1_y'',
            instance_name = ''u1_NOT_1_y''\<rparr>]"
    by (simp add: example_inst_def example_sub_flat inline_gate_def map_net_def
          port_map_def sanitize_examples del: flatten_module_gates.simps)
  finally show ?thesis .
qed

text \<open>
  Claim C3.  For a module with a non-empty instance list the flattened list does not
  depend on the module's own gates: it is the same for any list of local gates, since
  it is built from the instances alone.  The local gates are copied (with sanitized
  nets) exactly when the module has no instance, and then they are the whole result.
\<close>

theorem C3_local_gates_only_without_instances:
  "(mod_instances m \<noteq> [] \<longrightarrow>
      flatten_module_gates depth (m\<lparr>mod_gates := gs\<rparr>) modules =
        flatten_module_gates depth m modules \<and>
      flatten_module_gates (Suc depth) m modules =
        inline_instances depth (mod_instances m) modules []) \<and>
   (mod_instances m = [] \<longrightarrow>
      flatten_module_gates (Suc depth) m modules = Inr (map sanitize_gate (mod_gates m)))"
  by (cases depth) simp_all

theorem C3_local_gates_witness:
  "mod_instances example_top \<noteq> [] \<and>
   flatten_module_gates 2 (example_top\<lparr>mod_gates := []\<rparr>) [''inv2'' \<mapsto> example_sub] =
     flatten_module_gates 2 example_top [''inv2'' \<mapsto> example_sub] \<and>
   flatten_module_gates 2 example_top [''inv2'' \<mapsto> example_sub] =
     Inr [\<lparr>gate_type = ''NOT'', inputs = [''x_0''], output_net = ''probe'',
            instance_name = ''u1_NOT_1_w''\<rparr>,
          \<lparr>gate_type = ''NOT'', inputs = [''probe''], output_net = ''u1_y'',
            instance_name = ''u1_NOT_1_y''\<rparr>] \<and>
   mod_instances example_sub = [] \<and>
   flatten_module_gates 1 example_sub Map.empty = Inr (map sanitize_gate (mod_gates example_sub))"
proof -
  have a: "mod_instances example_top \<noteq> []" by (simp add: example_top_def)
  have b: "mod_instances example_sub = []" by (simp add: example_sub_def)
  have c: "flatten_module_gates 2 example_top [''inv2'' \<mapsto> example_sub] =
     Inr [\<lparr>gate_type = ''NOT'', inputs = [''x_0''], output_net = ''probe'',
            instance_name = ''u1_NOT_1_w''\<rparr>,
          \<lparr>gate_type = ''NOT'', inputs = [''probe''], output_net = ''u1_y'',
            instance_name = ''u1_NOT_1_y''\<rparr>]"
    using example_top_flat [of 0] by (simp add: numeral_2_eq_2)
  from C3_local_gates_only_without_instances [of example_top 2 "[]" "[''inv2'' \<mapsto> example_sub]"] a
  have d: "flatten_module_gates 2 (example_top\<lparr>mod_gates := []\<rparr>) [''inv2'' \<mapsto> example_sub] =
     flatten_module_gates 2 example_top [''inv2'' \<mapsto> example_sub]" by blast
  from C3_local_gates_only_without_instances [of example_sub 0 "[]" Map.empty] b
  have e: "flatten_module_gates 1 example_sub Map.empty =
      Inr (map sanitize_gate (mod_gates example_sub))" by simp
  from a b c d e show ?thesis by blast
qed

section \<open>Net renaming at an instantiation\<close>

lemma inline_instances_member:
  assumes "inline_instances depth insts modules flat0 = Inr flat"
    and "inst \<in> set insts" and "inst_module inst \<noteq> ''UNIT_DFFE''"
    and "modules (inst_module inst) = Some sub"
  shows "\<exists>sub_gates. flatten_module_gates depth sub modules = Inr sub_gates \<and>
           inline_gate inst ` set sub_gates \<subseteq> set flat"
  using assms(1,2)
proof (induction insts arbitrary: flat0)
  case Nil
  then show ?case by simp
next
  case (Cons i rest)
  have grows: "set add \<subseteq> set flat"
    if "inline_instances depth rest modules (flat0 @ add) = Inr flat" for add
  proof -
    from that inline_instances_acc [of depth rest modules "flat0 @ add"]
    obtain new where "flat = (flat0 @ add) @ new" by (auto split: sum.splits)
    then show ?thesis by auto
  qed
  show ?case
  proof (cases "inst = i")
    case True
    from Cons.prems(1) True assms(3,4) obtain sub_gates where
      s: "flatten_module_gates depth sub modules = Inr sub_gates"
      and r: "inline_instances depth rest modules (flat0 @ map (inline_gate inst) sub_gates) = Inr flat"
      by (auto split: sum.splits)
    from grows [OF r] have "inline_gate inst ` set sub_gates \<subseteq> set flat" by simp
    with s show ?thesis by blast
  next
    case False
    with Cons.prems(2) have m: "inst \<in> set rest" by simp
    from Cons.prems(1) obtain flat1 where
      "inline_instances depth rest modules flat1 = Inr flat"
      by (auto split: if_splits option.splits sum.splits)
    from Cons.IH [OF this m] show ?thesis .
  qed
qed

text \<open>
  The rule as the claim words it, for comparison: a net that is a formal port of the
  submodule is replaced by the sanitized actual net of that port (there is none when
  the port is left unconnected), any other net gets the instance prefix.  The port
  names are the source's \<open>sub_ports_in\<close> and \<open>sub_ports_out\<close>, which it computes and
  does not use.
\<close>

definition formal_ports :: "module \<Rightarrow> string set" where
  "formal_ports sub = sig_name ` set (mod_inputs sub) \<union> sig_name ` set (mod_outputs sub)"

definition claimed_net :: "module \<Rightarrow> module_instance \<Rightarrow> string \<Rightarrow> string option" where
  "claimed_net sub inst n =
     (if n \<in> formal_ports sub then map_option sanitize_signal_name (connections inst n)
      else Some (inst_name inst @ ''_'' @ n))"

text \<open>
  Claim C2, as stated, fails where the keys of the connection list and the formal ports
  differ.  In the example the instance connects the internal wire \<open>w\<close> of the submodule
  and leaves the output port \<open>y\<close> open: the code replaces \<open>w\<close> by the connected net
  \<open>probe\<close>, where the claim has \<open>u1_w\<close>, and renames \<open>y\<close> to \<open>u1_y\<close>, where the claim
  has the actual net of the port.
\<close>

theorem C2_formal_ports_counterexample:
  "flatten_module_gates 1 example_sub [''inv2'' \<mapsto> example_sub] =
     Inr [\<lparr>gate_type = ''NOT'', inputs = [''a''], output_net = ''w'',
            instance_name = ''NOT_1_w''\<rparr>,
          \<lparr>gate_type = ''NOT'', inputs = [''w''], output_net = ''y'',
            instance_name = ''NOT_1_y''\<rparr>] \<and>
   flatten_module_gates 2 example_top [''inv2'' \<mapsto> example_sub] =
     Inr [\<lparr>gate_type = ''NOT'', inputs = [''x_0''], output_net = ''probe'',
            instance_name = ''u1_NOT_1_w''\<rparr>,
          \<lparr>gate_type = ''NOT'', inputs = [''probe''], output_net = ''u1_y'',
            instance_name = ''u1_NOT_1_y''\<rparr>] \<and>
   claimed_net example_sub example_inst ''w'' = Some ''u1_w'' \<and>
   claimed_net example_sub example_inst ''w'' \<noteq> Some ''probe'' \<and>
   claimed_net example_sub example_inst ''y'' = None \<and>
   claimed_net example_sub example_inst ''y'' \<noteq> Some ''u1_y''"
proof -
  have "formal_ports example_sub = {''a'', ''y''}"
    by (auto simp: formal_ports_def example_sub_def)
  then have "claimed_net example_sub example_inst ''w'' = Some ''u1_w''"
    and "claimed_net example_sub example_inst ''y'' = None"
    by (simp_all add: claimed_net_def example_inst_def)
  then show ?thesis
    using example_sub_flat [of 0 "[''inv2'' \<mapsto> example_sub]"] example_top_flat [of 0]
    by (simp add: numeral_2_eq_2)
qed

text \<open>
  Claim C2, amended.  For every instantiation of a declared, non-virtual submodule with
  local instance name \<open>L\<close>, the submodule flattens, and every gate of its flattened list
  appears in the parent's list with each input net that is connected in the
  instantiation (a key of its connection list) replaced by the sanitized actual net,
  every other input net, also a formal port that is left unconnected, renamed to
  \<open>L_net\<close>, and the same rule applied to the output net.
\<close>

theorem C2_nets_mapped_by_connections:
  assumes "flatten_module_gates (Suc depth) m modules = Inr flat"
    and "inst \<in> set (mod_instances m)" and "inst_module inst \<noteq> ''UNIT_DFFE''"
    and "modules (inst_module inst) = Some sub"
  shows "\<exists>sub_gates. flatten_module_gates depth sub modules = Inr sub_gates \<and>
     (\<forall>g\<in>set sub_gates.
        \<lparr>gate_type = gate_type g,
         inputs = map (\<lambda>n. case connections inst n of
                              Some actual \<Rightarrow> sanitize_signal_name actual
                            | None \<Rightarrow> inst_name inst @ ''_'' @ n) (inputs g),
         output_net = (case connections inst (output_net g) of
                         Some actual \<Rightarrow> sanitize_signal_name actual
                       | None \<Rightarrow> inst_name inst @ ''_'' @ output_net g),
         instance_name = inst_name inst @ ''_'' @ instance_name g\<rparr> \<in> set flat)"
proof -
  from assms(1) have "inline_instances depth (mod_instances m) modules
      (if mod_instances m = [] then map sanitize_gate (mod_gates m) else []) = Inr flat"
    by simp
  from inline_instances_member [OF this assms(2,3,4)] obtain sub_gates where
    s: "flatten_module_gates depth sub modules = Inr sub_gates"
    and i: "inline_gate inst ` set sub_gates \<subseteq> set flat" by blast
  have "inline_gate inst g =
      \<lparr>gate_type = gate_type g,
         inputs = map (\<lambda>n. case connections inst n of
                              Some actual \<Rightarrow> sanitize_signal_name actual
                            | None \<Rightarrow> inst_name inst @ ''_'' @ n) (inputs g),
         output_net = (case connections inst (output_net g) of
                         Some actual \<Rightarrow> sanitize_signal_name actual
                       | None \<Rightarrow> inst_name inst @ ''_'' @ output_net g),
         instance_name = inst_name inst @ ''_'' @ instance_name g\<rparr>" for g
    by (simp add: inline_gate_def map_net_def port_map_def split: option.splits)
  with s i show ?thesis by auto
qed

theorem C2_nets_mapped_witness:
  "flatten_module_gates 2 example_top [''inv2'' \<mapsto> example_sub] =
     Inr [\<lparr>gate_type = ''NOT'', inputs = [''x_0''], output_net = ''probe'',
            instance_name = ''u1_NOT_1_w''\<rparr>,
          \<lparr>gate_type = ''NOT'', inputs = [''probe''], output_net = ''u1_y'',
            instance_name = ''u1_NOT_1_y''\<rparr>] \<and>
   example_inst \<in> set (mod_instances example_top) \<and>
   inst_module example_inst \<noteq> ''UNIT_DFFE'' \<and>
   [''inv2'' \<mapsto> example_sub] (inst_module example_inst) = Some example_sub \<and>
   (\<exists>sub_gates. flatten_module_gates 1 example_sub [''inv2'' \<mapsto> example_sub] = Inr sub_gates \<and>
      \<lparr>gate_type = ''NOT'', inputs = [''w''], output_net = ''y'',
        instance_name = ''NOT_1_y''\<rparr> \<in> set sub_gates \<and>
      \<lparr>gate_type = ''NOT'', inputs = [''probe''], output_net = ''u1_y'',
        instance_name = ''u1_NOT_1_y''\<rparr>
        \<in> set [\<lparr>gate_type = ''NOT'', inputs = [''x_0''], output_net = ''probe'',
                    instance_name = ''u1_NOT_1_w''\<rparr>,
                  \<lparr>gate_type = ''NOT'', inputs = [''probe''], output_net = ''u1_y'',
                    instance_name = ''u1_NOT_1_y''\<rparr>])"
proof -
  let ?ms = "[''inv2'' \<mapsto> example_sub]"
  let ?flat = "[\<lparr>gate_type = ''NOT'', inputs = [''x_0''], output_net = ''probe'',
            instance_name = ''u1_NOT_1_w''\<rparr>,
          \<lparr>gate_type = ''NOT'', inputs = [''probe''], output_net = ''u1_y'',
            instance_name = ''u1_NOT_1_y''\<rparr>]"
  let ?g = "\<lparr>gate_type = ''NOT'', inputs = [''w''], output_net = ''y'',
        instance_name = ''NOT_1_y''\<rparr>"
  have a: "flatten_module_gates (Suc 1) example_top ?ms = Inr ?flat"
    using example_top_flat [of 0] by simp
  have b: "example_inst \<in> set (mod_instances example_top)" by (simp add: example_top_def)
  have c: "inst_module example_inst \<noteq> ''UNIT_DFFE''" by (simp add: example_inst_def)
  have d: "?ms (inst_module example_inst) = Some example_sub" by (simp add: example_inst_def)
  from C2_nets_mapped_by_connections [OF a b c d] obtain sub_gates where
    s: "flatten_module_gates 1 example_sub ?ms = Inr sub_gates"
    and r: "\<forall>g\<in>set sub_gates.
        \<lparr>gate_type = gate_type g,
         inputs = map (\<lambda>n. case connections example_inst n of
                              Some actual \<Rightarrow> sanitize_signal_name actual
                            | None \<Rightarrow> inst_name example_inst @ ''_'' @ n) (inputs g),
         output_net = (case connections example_inst (output_net g) of
                         Some actual \<Rightarrow> sanitize_signal_name actual
                       | None \<Rightarrow> inst_name example_inst @ ''_'' @ output_net g),
         instance_name = inst_name example_inst @ ''_'' @ instance_name g\<rparr> \<in> set ?flat"
    by blast
  from s example_sub_flat [of 0 ?ms] have g: "?g \<in> set sub_gates" by auto
  from r [rule_format, OF g]
  have "\<lparr>gate_type = ''NOT'', inputs = [''probe''], output_net = ''u1_y'',
        instance_name = ''u1_NOT_1_y''\<rparr> \<in> set ?flat"
    by (simp add: example_inst_def sanitize_examples)
  with s g a b c d show ?thesis by (auto simp: numeral_2_eq_2)
qed

section \<open>Arity of the gates\<close>

text \<open>
  The gate that \<open>_parse_body\<close> appends for a non-blocking assignment \<open>q <= d\<close> in a
  block clocked by \<open>posedge clk\<close>.
\<close>

definition dff_gate :: "string \<Rightarrow> string \<Rightarrow> string \<Rightarrow> gate" where
  "dff_gate q d clk =
     \<lparr>gate_type = ''DFF'', inputs = [sanitize_signal_name d, sanitize_signal_name clk],
      output_net = sanitize_signal_name q, instance_name = []\<rparr>"

text \<open>The arity invariant of the data model.\<close>

definition arity_ok :: "gate \<Rightarrow> bool" where
  "arity_ok g =
     ((gate_type g \<in> {''AND'', ''OR'', ''XOR''} \<longrightarrow> length (inputs g) = 2) \<and>
      (gate_type g = ''NOT'' \<longrightarrow> length (inputs g) = 1) \<and>
      (gate_type g = ''DFF'' \<longrightarrow> length (inputs g) = 2) \<and>
      (gate_type g = ''ALIAS'' \<longrightarrow> length (inputs g) = 1))"

lemma arity_ok_not:
  "arity_ok \<lparr>gate_type = ''NOT'', inputs = [a], output_net = t, instance_name = n\<rparr>"
  by (simp add: arity_ok_def)

lemma arity_ok_bin:
  "arity_ok \<lparr>gate_type = gate_name k, inputs = [a, b], output_net = t, instance_name = n\<rparr>"
  by (cases k) (simp_all add: arity_ok_def gate_name_def)

lemma arity_ok_alias:
  "arity_ok \<lparr>gate_type = ''ALIAS'', inputs = [a], output_net = t, instance_name = n\<rparr>"
  by (simp add: arity_ok_def)

lemma ast_to_gates_arity:
  "list_all arity_ok acc \<Longrightarrow> ast_to_gates tree target acc c = (sig, acc', c') \<Longrightarrow>
   list_all arity_ok acc'"
proof (induction tree target acc c arbitrary: sig acc' c' rule: ast_to_gates.induct)
  case (1 target acc counter)
  then show ?case by simp
next
  case (2 src target acc counter)
  then show ?case by (simp split: if_splits)
next
  case (3 a target acc counter)
  obtain t c1 where nt: "new_temp ''n'' counter = (t, c1)" by (cases "new_temp ''n'' counter")
  obtain a_sig acc1 c2 where r: "ast_to_gates (Some a) t acc c1 = (a_sig, acc1, c2)"
    by (cases "ast_to_gates (Some a) t acc c1")
  from "3.IH" [OF nt [symmetric] "3.prems"(1) r] have "list_all arity_ok acc1" .
  moreover from "3.prems"(2) nt r
  have "acc' = acc1 @ [\<lparr>gate_type = ''NOT'', inputs = [a_sig], output_net = target,
                         instance_name = ''NOT_1_'' @ target\<rparr>]"
    by auto
  ultimately show ?case by (simp add: arity_ok_not)
next
  case (4 k l r target acc counter)
  obtain t_l c1 where nl: "new_temp ''l'' counter = (t_l, c1)" by (cases "new_temp ''l'' counter")
  obtain left_sig acc1 c2 where rl: "ast_to_gates (Some l) t_l acc c1 = (left_sig, acc1, c2)"
    by (cases "ast_to_gates (Some l) t_l acc c1")
  obtain t_r c3 where nr: "new_temp ''r'' c2 = (t_r, c3)" by (cases "new_temp ''r'' c2")
  obtain right_sig acc2 c4 where rr: "ast_to_gates (Some r) t_r acc1 c3 = (right_sig, acc2, c4)"
    by (cases "ast_to_gates (Some r) t_r acc1 c3")
  from "4.IH"(1) [OF nl [symmetric] "4.prems"(1) rl] have a1: "list_all arity_ok acc1" .
  from "4.IH"(2) [OF nl [symmetric] rl [symmetric] refl nr [symmetric] a1 rr]
  have "list_all arity_ok acc2" .
  moreover from "4.prems"(2) nl rl nr rr
  have "acc' = acc2 @ [\<lparr>gate_type = gate_name k, inputs = [left_sig, right_sig],
                         output_net = target,
                         instance_name = gate_name k @ ''_2_'' @ target\<rparr>]"
    by auto
  ultimately show ?case by (simp add: arity_ok_bin)
qed

lemma parse_assign_statement_arity:
  assumes "parse_assign_statement line c = Some (Inr (gates, c'))"
  shows "list_all arity_ok gates"
proof -
  let ?expr = "strip (drop 6 line)"
  show ?thesis
  proof (cases "CHR ''='' \<in> set ?expr")
    case False
    with assms show ?thesis by (simp add: parse_assign_statement_def Let_def)
  next
    case True
    obtain lhs rhs where sp: "split_first CHR ''='' ?expr = (lhs, rhs)"
      by (cases "split_first CHR ''='' ?expr")
    let ?e = "rstrip_chars {CHR '';''} (strip rhs)"
    show ?thesis
    proof (cases "match_word_only ?e")
      case m: True
      with assms True sp show ?thesis
        by (auto simp: parse_assign_statement_def Let_def arity_ok_alias)
    next
      case m: False
      with assms True sp
      have p: "parse_boolean_expr_to_gates ?e (strip lhs) c = Some (Inr (gates, c'))"
        by (simp add: parse_assign_statement_def Let_def)
      then obtain tokens where "tokenize_boolean_expr (rewrite_ternary_to_bool ?e) = Some tokens"
        by (auto simp: parse_boolean_expr_to_gates_def split: option.splits)
      with p have "gates = [] \<or> (\<exists>tree sig. ast_to_gates tree (strip lhs) [] c = (sig, gates, c'))"
        by (auto simp: parse_boolean_expr_to_gates_def Let_def split: if_splits sum.splits prod.splits)
      then show ?thesis
        using ast_to_gates_arity [of "[]"] by auto
    qed
  qed
qed

lemma sanitize_gate_arity: "arity_ok g \<Longrightarrow> arity_ok (sanitize_gate g)"
  by (simp add: arity_ok_def sanitize_gate_def)

lemma inline_gate_arity: "arity_ok g \<Longrightarrow> arity_ok (inline_gate inst g)"
  by (simp add: arity_ok_def inline_gate_def)

lemma arity_ok_dff:
  "arity_ok \<lparr>gate_type = ''DFF'', inputs = [a, b], output_net = t, instance_name = n\<rparr>"
  by (simp add: arity_ok_def)

lemma unit_dffe_arity: "list_all arity_ok (unit_dffe_gates inst)"
  by (simp add: unit_dffe_gates_def Let_def arity_ok_dff split: option.splits)

lemma flatten_arity:
  shows "\<forall>n sub. modules n = Some sub \<longrightarrow> list_all arity_ok (mod_gates sub) \<Longrightarrow>
         list_all arity_ok (mod_gates m) \<Longrightarrow>
         flatten_module_gates depth m modules = Inr flat \<Longrightarrow> list_all arity_ok flat"
    and "\<forall>n sub. modules n = Some sub \<longrightarrow> list_all arity_ok (mod_gates sub) \<Longrightarrow>
         list_all arity_ok flat0 \<Longrightarrow>
         inline_instances depth insts modules flat0 = Inr flat \<Longrightarrow> list_all arity_ok flat"
proof (induction depth m modules and depth insts modules flat0 arbitrary: flat and flat
    rule: flatten_module_gates_inline_instances.induct)
  case (1 m modules)
  then show ?case by simp
next
  case (2 depth m modules)
  have "list_all arity_ok (if mod_instances m = [] then map sanitize_gate (mod_gates m) else [])"
    using "2.prems"(2) by (auto simp: list_all_iff sanitize_gate_arity)
  from "2.IH" [OF "2.prems"(1) this] "2.prems"(3) show ?case by simp
next
  case (3 depth modules flat0)
  then show ?case by simp
next
  case (4 depth inst rest modules flat0)
  note table = "4.prems"(1)
  show ?case
  proof (cases "inst_module inst = ''UNIT_DFFE''")
    case True
    have "list_all arity_ok (flat0 @ unit_dffe_gates inst)"
      using "4.prems"(2) unit_dffe_arity by simp
    from "4.IH"(1) [OF True table this] "4.prems"(3) True show ?thesis by simp
  next
    case False
    show ?thesis
    proof (cases "modules (inst_module inst)")
      case None
      from "4.IH"(2) [OF False None table "4.prems"(2)] "4.prems"(3) False None
      show ?thesis by simp
    next
      case (Some sub)
      from "4.prems"(3) False Some obtain sub_gates where
        s: "flatten_module_gates depth sub modules = Inr sub_gates"
        and r: "inline_instances depth rest modules (flat0 @ map (inline_gate inst) sub_gates) = Inr flat"
        by (auto split: sum.splits)
      from table Some have "list_all arity_ok (mod_gates sub)" by blast
      from "4.IH"(3) [OF False Some table this s] have "list_all arity_ok sub_gates" .
      then have "list_all arity_ok (flat0 @ map (inline_gate inst) sub_gates)"
        using "4.prems"(2) by (auto simp: list_all_iff inline_gate_arity)
      from "4.IH"(4) [OF False Some s table this r] show ?thesis .
    qed
  qed
qed

text \<open>
  Claim C6.  Every gate that the parser builds for an assign statement (the ALIAS gate
  or the gates of the expression compiler), the DFF gate that it builds for a clocked
  assignment, and every gate of a flattened list (a copy of a local gate, the DFF of
  the virtual primitive, or an inlined gate of a submodule whose gates keep the rule)
  has the arity of its kind: two inputs for AND, OR, XOR and DFF, one for NOT and
  ALIAS; the inputs of a DFF are the data net and then the clock net.
\<close>

theorem C6_gate_arity:
  "(parse_assign_statement line c = Some (Inr (gates, c')) \<longrightarrow> list_all arity_ok gates) \<and>
   arity_ok (dff_gate q d clk) \<and>
   inputs (dff_gate q d clk) = [sanitize_signal_name d, sanitize_signal_name clk] \<and>
   (\<forall>conn_d conn_clk conn_q.
      connections inst ''D'' = Some conn_d \<and> connections inst ''CLK'' = Some conn_clk \<and>
      connections inst ''Q'' = Some conn_q \<longrightarrow>
      map inputs (unit_dffe_gates inst) =
        [[sanitize_signal_name conn_d, sanitize_signal_name conn_clk]]) \<and>
   ((\<forall>n sub. modules n = Some sub \<longrightarrow> list_all arity_ok (mod_gates sub)) \<and>
    list_all arity_ok (mod_gates m) \<and>
    flatten_module_gates depth m modules = Inr flat \<longrightarrow> list_all arity_ok flat)"
proof (intro conjI impI allI)
  assume "parse_assign_statement line c = Some (Inr (gates, c'))"
  then show "list_all arity_ok gates" by (rule parse_assign_statement_arity)
next
  show "arity_ok (dff_gate q d clk)" by (simp add: dff_gate_def arity_ok_dff)
next
  show "inputs (dff_gate q d clk) = [sanitize_signal_name d, sanitize_signal_name clk]"
    by (simp add: dff_gate_def)
next
  fix conn_d conn_clk conn_q
  assume "connections inst ''D'' = Some conn_d \<and> connections inst ''CLK'' = Some conn_clk \<and>
      connections inst ''Q'' = Some conn_q"
  then show "map inputs (unit_dffe_gates inst) =
        [[sanitize_signal_name conn_d, sanitize_signal_name conn_clk]]"
    by (simp add: unit_dffe_gates_def)
next
  assume "(\<forall>n sub. modules n = Some sub \<longrightarrow> list_all arity_ok (mod_gates sub)) \<and>
    list_all arity_ok (mod_gates m) \<and>
    flatten_module_gates depth m modules = Inr flat"
  then show "list_all arity_ok flat"
    using flatten_arity(1) [of modules m depth flat] by blast
qed

theorem C6_gate_arity_witness:
  "parse_assign_statement ''assign y = ~a & b;'' 0 =
     Some (Inr ([\<lparr>gate_type = ''NOT'', inputs = [''a''], output_net = ''tmp_l_1'',
                   instance_name = ''NOT_1_tmp_l_1''\<rparr>,
                 \<lparr>gate_type = ''AND'', inputs = [''tmp_l_1'', ''b''], output_net = ''y'',
                   instance_name = ''AND_2_y''\<rparr>], 3)) \<and>
   list_all arity_ok
     [\<lparr>gate_type = ''NOT'', inputs = [''a''], output_net = ''tmp_l_1'',
        instance_name = ''NOT_1_tmp_l_1''\<rparr>,
      \<lparr>gate_type = ''AND'', inputs = [''tmp_l_1'', ''b''], output_net = ''y'',
        instance_name = ''AND_2_y''\<rparr>] \<and>
   list_all arity_ok (mod_gates example_top) \<and>
   flatten_module_gates 2 example_top [''inv2'' \<mapsto> example_sub] =
     Inr [\<lparr>gate_type = ''NOT'', inputs = [''x_0''], output_net = ''probe'',
            instance_name = ''u1_NOT_1_w''\<rparr>,
          \<lparr>gate_type = ''NOT'', inputs = [''probe''], output_net = ''u1_y'',
            instance_name = ''u1_NOT_1_y''\<rparr>] \<and>
   list_all arity_ok
     [\<lparr>gate_type = ''NOT'', inputs = [''x_0''], output_net = ''probe'',
        instance_name = ''u1_NOT_1_w''\<rparr>,
      \<lparr>gate_type = ''NOT'', inputs = [''probe''], output_net = ''u1_y'',
        instance_name = ''u1_NOT_1_y''\<rparr>]"
proof -
  let ?ms = "[''inv2'' \<mapsto> example_sub]"
  let ?gs = "[\<lparr>gate_type = ''NOT'', inputs = [''a''], output_net = ''tmp_l_1'',
                   instance_name = ''NOT_1_tmp_l_1''\<rparr>,
                 \<lparr>gate_type = ''AND'', inputs = [''tmp_l_1'', ''b''], output_net = ''y'',
                   instance_name = ''AND_2_y''\<rparr>]"
  let ?flat = "[\<lparr>gate_type = ''NOT'', inputs = [''x_0''], output_net = ''probe'',
            instance_name = ''u1_NOT_1_w''\<rparr>,
          \<lparr>gate_type = ''NOT'', inputs = [''probe''], output_net = ''u1_y'',
            instance_name = ''u1_NOT_1_y''\<rparr>]"
  have p: "parse_assign_statement ''assign y = ~a & b;'' 0 = Some (Inr (?gs, 3))"
    by code_simp
  have t: "\<forall>n sub. ?ms n = Some sub \<longrightarrow> list_all arity_ok (mod_gates sub)"
    by (simp add: example_sub_def arity_ok_def)
  have g: "list_all arity_ok (mod_gates example_top)"
    by (simp add: example_top_def arity_ok_def)
  have f: "flatten_module_gates 2 example_top ?ms = Inr ?flat"
    using example_top_flat [of 0] by (simp add: numeral_2_eq_2)
  note c6 = C6_gate_arity [of "''assign y = ~a & b;''" 0 ?gs 3 q d clk example_inst ?ms
      example_top 2 ?flat]
  from c6 p have "list_all arity_ok ?gs" by blast
  moreover from c6 t g f have "list_all arity_ok ?flat" by blast
  ultimately show ?thesis using p g f by blast
qed

end
